theory Spec2Isabelle
  imports Main
begin

section \<open>Python values of the configuration document\<close>

text \<open>
  The document is what \<^verbatim>\<open>json.loads\<close> returns: \<^verbatim>\<open>None\<close>, \<^verbatim>\<open>bool\<close>, \<^verbatim>\<open>int\<close>,
  \<^verbatim>\<open>float\<close>, \<^verbatim>\<open>str\<close>, \<^verbatim>\<open>list\<close> and \<^verbatim>\<open>dict\<close>. A float is never inspected by
  the program beyond its type, so it carries its literal text only. A dict is an
  association list in insertion order whose first binding of a key is the value of
  that key.

  A Python \<^verbatim>\<open>str\<close> is modelled by \<^typ>\<open>string\<close>; a \<^typ>\<open>char\<close> is read as the code
  point of the same number, so the model covers the strings over U+0000..U+00FF.
\<close>

datatype json =
    JNull
  | JBool bool
  | JInt int
  | JFloat string
  | JStr string
  | JList "json list"
  | JDict "(string \<times> json) list"

type_synonym pydict = "(string \<times> json) list"

text \<open>\<^verbatim>\<open>type(v).__name__\<close>\<close>

fun type_name :: "json \<Rightarrow> string" where
  "type_name JNull = ''NoneType''"
| "type_name (JBool _) = ''bool''"
| "type_name (JInt _) = ''int''"
| "type_name (JFloat _) = ''float''"
| "type_name (JStr _) = ''str''"
| "type_name (JList _) = ''list''"
| "type_name (JDict _) = ''dict''"

text \<open>\<^verbatim>\<open>d.get(k)\<close>: the value of the key, \<^verbatim>\<open>None\<close> when the key is missing.\<close>

definition dict_get :: "pydict \<Rightarrow> string \<Rightarrow> json" where
  "dict_get d k = (case map_of d k of None \<Rightarrow> JNull | Some v \<Rightarrow> v)"

text \<open>
  \<^verbatim>\<open>isinstance(v, bool)\<close> and \<^verbatim>\<open>isinstance(v, int)\<close>. In Python \<^verbatim>\<open>bool\<close> is a
  subclass of \<^verbatim>\<open>int\<close>: \<^verbatim>\<open>True\<close> is the integer 1 and \<^verbatim>\<open>False\<close> the integer 0.
\<close>

fun isinstance_bool :: "json \<Rightarrow> bool" where
  "isinstance_bool (JBool _) = True"
| "isinstance_bool _ = False"

fun isinstance_int :: "json \<Rightarrow> bool" where
  "isinstance_int (JInt _) = True"
| "isinstance_int (JBool _) = True"
| "isinstance_int _ = False"

fun int_value :: "json \<Rightarrow> int" where
  "int_value (JInt n) = n"
| "int_value (JBool b) = (if b then 1 else 0)"
| "int_value _ = 0"

section \<open>Strings\<close>

text \<open>\<^verbatim>\<open>str.isspace\<close> on one character, which is also the class \<^verbatim>\<open>\s\<close> of \<^verbatim>\<open>re\<close>.\<close>

definition isspace :: "char \<Rightarrow> bool" where
  "isspace c = (let n = (of_char c :: nat) in
     (9 \<le> n \<and> n \<le> 13) \<or> (28 \<le> n \<and> n \<le> 32) \<or> n = 133 \<or> n = 160)"

text \<open>\<^verbatim>\<open>s.strip()\<close>\<close>

definition strip :: "string \<Rightarrow> string" where
  "strip s = rev (dropWhile isspace (rev (dropWhile isspace s)))"

text \<open>\<^verbatim>\<open>s.strip(chars)\<close>\<close>

definition strip_chars :: "string \<Rightarrow> string \<Rightarrow> string" where
  "strip_chars chars s =
     rev (dropWhile (\<lambda>c. c \<in> set chars) (rev (dropWhile (\<lambda>c. c \<in> set chars) s)))"

text \<open>\<^verbatim>\<open>s.lower()\<close>: the letters A..Z and U+00C0..U+00DE without U+00D7 move up by 32.\<close>

definition lower_char :: "char \<Rightarrow> char" where
  "lower_char c = (let n = (of_char c :: nat) in
     if (65 \<le> n \<and> n \<le> 90) \<or> (192 \<le> n \<and> n \<le> 222 \<and> n \<noteq> 215)
     then char_of (n + 32) else c)"

definition lower :: "string \<Rightarrow> string" where
  "lower s = map lower_char s"

text \<open>\<^verbatim>\<open>s.replace(old, '')\<close>: every occurrence of \<open>old\<close>, left to right, is dropped.\<close>

function remove_all :: "string \<Rightarrow> string \<Rightarrow> string" where
  "remove_all old [] = []"
| "remove_all old (c # cs) =
     (if old \<noteq> [] \<and> take (length old) (c # cs) = old
      then remove_all old (drop (length old) (c # cs))
      else c # remove_all old cs)"
  by pat_completeness auto
termination
  by (relation "measure (\<lambda>(old, s). length s)") auto

text \<open>\<^verbatim>\<open>str(n)\<close> of an integer, as an f-string renders it.\<close>

definition digit_char :: "nat \<Rightarrow> char" where
  "digit_char d = char_of (48 + d)"

fun str_nat :: "nat \<Rightarrow> string" where
  "str_nat n = (if n < 10 then [digit_char n] else str_nat (n div 10) @ [digit_char (n mod 10)])"

declare str_nat.simps [simp del]

definition str_int :: "int \<Rightarrow> string" where
  "str_int i = (if i < 0 then CHR ''-'' # str_nat (nat (- i)) else str_nat (nat i))"

section \<open>Errors\<close>

text \<open>
  Every \<^verbatim>\<open>UserError\<close> of the program is one constructor, with the values its message
  interpolates as arguments. \<open>InboundIndexOutOfRange i hi\<close> is the message
  \<^verbatim>\<open>--inbound-index {i} is out of range (0..{hi})\<close>, and \<open>NoMatchingInbound e\<close> the
  message that ends in \<^verbatim>\<open>Last error: {e}\<close>.
\<close>

datatype error =
    ExpectedObject string string
  | ExpectedArray string string
  | ExpectedNonEmptyString string
  | ExpectedInteger string
  | InvalidUUID string
  | ShortIdNotHex string
  | ShortIdOddLength nat string
  | PrivateKeyFormat string
  | NoInbounds
  | ProtocolNotVless nat json
  | PortOutOfRange nat int
  | ClientsEmpty nat
  | SecurityNotReality nat string
  | ServerNamesEmpty nat
  | ShortIdsEmpty nat
  | InboundIndexOutOfRange int int
  | NoMatchingInbound "error option"
  | XrayNotFound
  | XrayFailed int string
  | PublicKeyParseFailed string
  | PublicKeyFormat string

text \<open>Sequencing of steps that may raise: the first error ends the computation.\<close>

definition and_then :: "error + 'a \<Rightarrow> ('a \<Rightarrow> error + 'b) \<Rightarrow> error + 'b" where
  "and_then m f = (case m of Inl e \<Rightarrow> Inl e | Inr x \<Rightarrow> f x)"

section \<open>The typed accessors\<close>

fun expect_dict :: "json \<Rightarrow> string \<Rightarrow> error + pydict" where
  "expect_dict (JDict d) whr = Inr d"
| "expect_dict v whr = Inl (ExpectedObject whr (type_name v))"

fun expect_list :: "json \<Rightarrow> string \<Rightarrow> error + json list" where
  "expect_list (JList xs) whr = Inr xs"
| "expect_list v whr = Inl (ExpectedArray whr (type_name v))"

fun expect_str :: "json \<Rightarrow> string \<Rightarrow> error + string" where
  "expect_str (JStr s) whr =
     (if strip s = [] then Inl (ExpectedNonEmptyString whr) else Inr (strip s))"
| "expect_str v whr = Inl (ExpectedNonEmptyString whr)"

definition expect_int :: "json \<Rightarrow> string \<Rightarrow> error + int" where
  "expect_int v whr =
     (if isinstance_bool v \<or> \<not> isinstance_int v then Inl (ExpectedInteger whr)
      else Inr (int_value v))"

section \<open>Format validators\<close>

text \<open>The character classes \<^verbatim>\<open>[A-Za-z0-9_-]\<close> and \<^verbatim>\<open>[0-9a-fA-F]\<close>.\<close>

definition b64url_char :: "char \<Rightarrow> bool" where
  "b64url_char c = (let n = (of_char c :: nat) in
     (65 \<le> n \<and> n \<le> 90) \<or> (97 \<le> n \<and> n \<le> 122) \<or> (48 \<le> n \<and> n \<le> 57)
       \<or> c = CHR ''_'' \<or> c = CHR ''-'')"

definition hex_char :: "char \<Rightarrow> bool" where
  "hex_char c = (let n = (of_char c :: nat) in
     (48 \<le> n \<and> n \<le> 57) \<or> (97 \<le> n \<and> n \<le> 102) \<or> (65 \<le> n \<and> n \<le> 70))"

text \<open>
  \<^verbatim>\<open>$\<close> without \<^verbatim>\<open>re.MULTILINE\<close> holds at the end of the string and before a line
  feed that ends the string. The argument is the rest of the string at the position.
\<close>

definition at_dollar :: "string \<Rightarrow> bool" where
  "at_dollar rest = (rest = [] \<or> rest = [CHR 0x0A])"

text \<open>
  \<^verbatim>\<open>_B64URL_RE.match(s)\<close> for \<^verbatim>\<open>^[A-Za-z0-9_-]{32,}$\<close> and \<^verbatim>\<open>_HEX_RE.match(s)\<close> for
  \<^verbatim>\<open>^[0-9a-fA-F]+$\<close>. The greedy repetition takes the longest run of the class;
  giving characters back leaves a character of the class next, where \<^verbatim>\<open>$\<close> fails,
  so the longest run decides.
\<close>

definition B64URL_RE_match :: "string \<Rightarrow> bool" where
  "B64URL_RE_match s =
     (32 \<le> length (takeWhile b64url_char s) \<and> at_dollar (dropWhile b64url_char s))"

definition HEX_RE_match :: "string \<Rightarrow> bool" where
  "HEX_RE_match s =
     (1 \<le> length (takeWhile hex_char s) \<and> at_dollar (dropWhile hex_char s))"

definition validate_short_id :: "string \<Rightarrow> error + unit" where
  "validate_short_id sid =
     (if \<not> HEX_RE_match sid then Inl (ShortIdNotHex sid)
      else if length sid mod 2 \<noteq> 0 then Inl (ShortIdOddLength (length sid) sid)
      else Inr ())"

definition validate_private_key :: "string \<Rightarrow> error + unit" where
  "validate_private_key pk =
     (if \<not> B64URL_RE_match pk then Inl (PrivateKeyFormat pk) else Inr ())"

subsection \<open>The constructor \<^verbatim>\<open>uuid.UUID\<close> of the standard library\<close>

datatype py_exception = ValueError

text \<open>
  \<^verbatim>\<open>int(s, 16)\<close>. Blanks around the number are skipped (the ASCII blanks, and U+0085
  and U+00A0, which the conversion maps to a space), then one sign, then the prefix
  \<^verbatim>\<open>0x\<close> or \<^verbatim>\<open>0X\<close> with one underscore after it; the digits may be separated by
  single underscores and must not begin or end with one.
\<close>

definition int_isspace :: "char \<Rightarrow> bool" where
  "int_isspace c = (let n = (of_char c :: nat) in
     (9 \<le> n \<and> n \<le> 13) \<or> n = 32 \<or> n = 133 \<or> n = 160)"

definition hex_digit_value :: "char \<Rightarrow> nat option" where
  "hex_digit_value c = (let n = (of_char c :: nat) in
     if 48 \<le> n \<and> n \<le> 57 then Some (n - 48)
     else if 97 \<le> n \<and> n \<le> 102 then Some (n - 87)
     else if 65 \<le> n \<and> n \<le> 70 then Some (n - 55)
     else None)"

fun skip_sign :: "string \<Rightarrow> bool \<times> string" where
  "skip_sign [] = (False, [])"
| "skip_sign (c # cs) =
     (if c = CHR ''+'' then (False, cs)
      else if c = CHR ''-'' then (True, cs)
      else (False, c # cs))"

fun skip_prefix16 :: "string \<Rightarrow> string" where
  "skip_prefix16 (c0 # c1 # cs) =
     (if c0 = CHR ''0'' \<and> (c1 = CHR ''x'' \<or> c1 = CHR ''X'')
      then (case cs of [] \<Rightarrow> [] | c2 # cs' \<Rightarrow> if c2 = CHR ''_'' then cs' else c2 # cs')
      else c0 # c1 # cs)"
| "skip_prefix16 s = s"

text \<open>
  The scan over digits and underscores: \<open>prev\<close> tells that the previous character
  was an underscore, \<open>acc\<close> is the value of the digits read. The result is the value
  and the rest of the string, or \<open>None\<close> for a doubled or trailing underscore.
\<close>

fun scan_digits :: "string \<Rightarrow> bool \<Rightarrow> int \<Rightarrow> (int \<times> string) option" where
  "scan_digits [] prev acc = (if prev then None else Some (acc, []))"
| "scan_digits (c # cs) prev acc =
     (if c = CHR ''_'' then (if prev then None else scan_digits cs True acc)
      else (case hex_digit_value c of
              Some d \<Rightarrow> scan_digits cs False (acc * 16 + int d)
            | None \<Rightarrow> if prev then None else Some (acc, c # cs)))"

definition py_int16 :: "string \<Rightarrow> py_exception + int" where
  "py_int16 s =
     (let (neg, s2) = skip_sign (dropWhile int_isspace s);
          s3 = skip_prefix16 s2
      in if s3 \<noteq> [] \<and> hd s3 = CHR ''_'' then Inl ValueError
         else (case scan_digits s3 False 0 of
                 None \<Rightarrow> Inl ValueError
               | Some (n, rest) \<Rightarrow>
                   if length rest = length s3 then Inl ValueError
                   else if dropWhile int_isspace rest \<noteq> [] then Inl ValueError
                   else Inr (if neg then - n else n)))"

text \<open>
  \<^verbatim>\<open>uuid.UUID(u)\<close> with a string: \<^verbatim>\<open>urn:\<close> and \<^verbatim>\<open>uuid:\<close> are removed, braces are
  stripped from both ends, hyphens are removed; what is left must have 32 characters
  and be accepted by \<^verbatim>\<open>int(hex, 16)\<close> with a value from 0 and below
  \<^verbatim>\<open>1 << 128\<close>, which is 340282366920938463463374607431768211456.
\<close>

definition UUID :: "string \<Rightarrow> py_exception + int" where
  "UUID u =
     (let hex = remove_all ''uuid:'' (remove_all ''urn:'' u);
          hex = remove_all ''-'' (strip_chars ''{}'' hex)
      in if length hex \<noteq> 32 then Inl ValueError
         else (case py_int16 hex of
                 Inl e \<Rightarrow> Inl e
               | Inr i \<Rightarrow> if \<not> (0 \<le> i \<and> i < 340282366920938463463374607431768211456) then Inl ValueError else Inr i))"

definition validate_uuid :: "string \<Rightarrow> error + unit" where
  "validate_uuid u = (case UUID u of Inl _ \<Rightarrow> Inl (InvalidUUID u) | Inr _ \<Rightarrow> Inr ())"

section \<open>Derivation of the public key\<close>

text \<open>
  The call of \<^verbatim>\<open>subprocess.run\<close> either raises \<^verbatim>\<open>FileNotFoundError\<close> or completes
  with a return code and the text of standard output and standard error together.
  The external program is a parameter: a function from the private key it is given
  to the outcome of the call.
\<close>

datatype run_result = FileNotFoundError | CompletedProcess int string

text \<open>One of the two labels with its colon at the start of \<open>s\<close>: the rest after it.\<close>

definition strip_label :: "string \<Rightarrow> string option" where
  "strip_label s =
     (if take 9 s = ''Password:'' then Some (drop 9 s)
      else if take 10 s = ''PublicKey:'' then Some (drop 10 s)
      else None)"

text \<open>
  A match of \<^verbatim>\<open>(?:Password|PublicKey):\s*(\S+)\s*$\<close> that begins at the start of \<open>s\<close>,
  with \<^verbatim>\<open>re.MULTILINE\<close>; the result is group 1. After the label the first \<^verbatim>\<open>\s*\<close>
  takes the whole run of blanks and \<^verbatim>\<open>\S+\<close> the whole run of other characters
  (a shorter choice of either leaves the next item without a character to take).
  The last \<^verbatim>\<open>\s*\<close> gives blanks back until \<^verbatim>\<open>$\<close> holds: at the end of the text, or
  before a line feed, which then is one of the blanks after the token.
\<close>

definition match_at :: "string \<Rightarrow> string option" where
  "match_at s =
     (case strip_label s of
        None \<Rightarrow> None
      | Some r \<Rightarrow>
          let r1 = dropWhile isspace r;
              tok = takeWhile (\<lambda>c. \<not> isspace c) r1;
              r2 = dropWhile (\<lambda>c. \<not> isspace c) r1;
              ws2 = takeWhile isspace r2;
              r3 = dropWhile isspace r2
          in if tok = [] then None
             else if r3 = [] \<or> CHR 0x0A \<in> set ws2 then Some tok
             else None)"

text \<open>
  \<^verbatim>\<open>re.search\<close>: the first position where \<^verbatim>\<open>^\<close> holds (the start of the text and
  after every line feed) and the pattern matches. \<open>bol\<close> tells that the position is
  such a line start.
\<close>

fun search_from :: "bool \<Rightarrow> string \<Rightarrow> string option" where
  "search_from bol [] = None"
| "search_from bol (c # cs) =
     (case (if bol then match_at (c # cs) else None) of
        Some tok \<Rightarrow> Some tok
      | None \<Rightarrow> search_from (c = CHR 0x0A) cs)"

definition re_search_key :: "string \<Rightarrow> string option" where
  "re_search_key out = search_from True out"

definition compute_public_key_from_private ::
    "(string \<Rightarrow> run_result) \<Rightarrow> string \<Rightarrow> error + string" where
  "compute_public_key_from_private run private_key =
     (case run private_key of
        FileNotFoundError \<Rightarrow> Inl XrayNotFound
      | CompletedProcess returncode stdout \<Rightarrow>
          let out = strip stdout in
          if returncode \<noteq> 0 then Inl (XrayFailed returncode out)
          else (case re_search_key out of
                  None \<Rightarrow> Inl (PublicKeyParseFailed out)
                | Some g \<Rightarrow>
                    let pub = strip g in
                    if \<not> B64URL_RE_match pub then Inl (PublicKeyFormat pub)
                    else Inr pub))"

section \<open>The record\<close>

record RealityInbound =
  uuid :: string
  flow :: "string option"
  port :: int
  network :: string
  sni :: string
  short_id :: string
  private_key :: string

section \<open>Selection of the inbound\<close>

text \<open>The path label \<^verbatim>\<open>inbounds[{idx}]...\<close> of an accessor call.\<close>

definition path :: "nat \<Rightarrow> string \<Rightarrow> string" where
  "path idx suffix = ''inbounds['' @ str_int (int idx) @ '']'' @ suffix"

text \<open>The optional \<^verbatim>\<open>flow\<close> of the first client: \<^verbatim>\<open>None\<close> stays, anything else
  must be a non-blank string.\<close>

definition read_flow :: "nat \<Rightarrow> json \<Rightarrow> error + string option" where
  "read_flow idx flow_any =
     (if flow_any \<noteq> JNull
      then and_then (expect_str flow_any (path idx ''.settings.clients[0].flow'')) (\<lambda>s. Inr (Some s))
      else Inr None)"

definition parse_one :: "nat \<Rightarrow> json \<Rightarrow> error + RealityInbound" where
  "parse_one idx inbound_any =
   and_then (expect_dict inbound_any (path idx [])) (\<lambda>ib.
   let protocol = dict_get ib ''protocol'' in
   if protocol \<noteq> JStr ''vless'' then Inl (ProtocolNotVless idx protocol) else
   and_then (expect_int (dict_get ib ''port'') (path idx ''.port'')) (\<lambda>port.
   if \<not> (1 \<le> port \<and> port \<le> 65535) then Inl (PortOutOfRange idx port) else
   and_then (expect_dict (dict_get ib ''settings'') (path idx ''.settings'')) (\<lambda>settings.
   and_then (expect_list (dict_get settings ''clients'') (path idx ''.settings.clients'')) (\<lambda>clients.
   if clients = [] then Inl (ClientsEmpty idx) else
   and_then (expect_dict (hd clients) (path idx ''.settings.clients[0]'')) (\<lambda>c0.
   and_then (expect_str (dict_get c0 ''id'') (path idx ''.settings.clients[0].id'')) (\<lambda>uuid.
   and_then (read_flow idx (dict_get c0 ''flow'')) (\<lambda>flow.
   and_then (expect_dict (dict_get ib ''streamSettings'') (path idx ''.streamSettings'')) (\<lambda>stream.
   and_then (expect_str (dict_get stream ''network'') (path idx ''.streamSettings.network'')) (\<lambda>network.
   and_then (expect_str (dict_get stream ''security'') (path idx ''.streamSettings.security'')) (\<lambda>security.
   if security \<noteq> ''reality'' then Inl (SecurityNotReality idx security) else
   and_then (expect_dict (dict_get stream ''realitySettings'')
               (path idx ''.streamSettings.realitySettings'')) (\<lambda>reality.
   and_then (expect_list (dict_get reality ''serverNames'')
               (path idx ''.streamSettings.realitySettings.serverNames'')) (\<lambda>server_names.
   if server_names = [] then Inl (ServerNamesEmpty idx) else
   and_then (expect_str (hd server_names)
               (path idx ''.streamSettings.realitySettings.serverNames[0]'')) (\<lambda>sni.
   and_then (expect_list (dict_get reality ''shortIds'')
               (path idx ''.streamSettings.realitySettings.shortIds'')) (\<lambda>short_ids.
   if short_ids = [] then Inl (ShortIdsEmpty idx) else
   and_then (expect_str (hd short_ids)
               (path idx ''.streamSettings.realitySettings.shortIds[0]'')) (\<lambda>short_id.
   and_then (expect_str (dict_get reality ''privateKey'')
               (path idx ''.streamSettings.realitySettings.privateKey'')) (\<lambda>private_key.
   and_then (validate_uuid uuid) (\<lambda>_.
   and_then (validate_short_id short_id) (\<lambda>_.
   and_then (validate_private_key private_key) (\<lambda>_.
   Inr \<lparr>uuid = uuid, flow = flow, port = port, network = network, sni = sni,
        short_id = lower short_id, private_key = private_key\<rparr>)))))))))))))))))))"

text \<open>
  The loop of the automatic selection: the candidates in order with their index,
  \<open>last_err\<close> the error of the candidate before. Every exception of a candidate is
  caught; the first record is returned.
\<close>

fun scan_inbounds :: "nat \<Rightarrow> json list \<Rightarrow> error option \<Rightarrow> error + RealityInbound" where
  "scan_inbounds idx [] last_err = Inl (NoMatchingInbound last_err)"
| "scan_inbounds idx (ib # rest) last_err =
     (case parse_one idx ib of
        Inr r \<Rightarrow> Inr r
      | Inl e \<Rightarrow> scan_inbounds (Suc idx) rest (Some e))"

definition select_inbound :: "pydict \<Rightarrow> int option \<Rightarrow> error + RealityInbound" where
  "select_inbound cfg inbound_index =
   and_then (expect_list (dict_get cfg ''inbounds'') ''inbounds'') (\<lambda>inbounds.
   if inbounds = [] then Inl NoInbounds else
   (case inbound_index of
      Some i \<Rightarrow>
        if i < 0 \<or> i \<ge> int (length inbounds)
        then Inl (InboundIndexOutOfRange i (int (length inbounds) - 1))
        else parse_one (nat i) (inbounds ! nat i)
    | None \<Rightarrow> scan_inbounds 0 inbounds None))"

section \<open>Construction of the link\<close>

text \<open>
  \<^verbatim>\<open>s.encode('utf-8')\<close>: a code point below U+0080 is one byte, one from U+0080 to
  U+00FF two bytes. A byte is a \<^typ>\<open>char\<close> as well.
\<close>

definition utf8_encode_char :: "char \<Rightarrow> char list" where
  "utf8_encode_char c = (let n = (of_char c :: nat) in
     if n < 128 then [c] else [char_of (192 + n div 64), char_of (128 + n mod 64)])"

definition utf8_encode :: "string \<Rightarrow> char list" where
  "utf8_encode s = concat (map utf8_encode_char s)"

text \<open>The bytes that are never quoted: letters, digits and \<^verbatim>\<open>_.-~\<close>.\<close>

definition always_safe :: "char \<Rightarrow> bool" where
  "always_safe b = (let n = (of_char b :: nat) in
     (65 \<le> n \<and> n \<le> 90) \<or> (97 \<le> n \<and> n \<le> 122) \<or> (48 \<le> n \<and> n \<le> 57)
       \<or> b = CHR ''_'' \<or> b = CHR ''.'' \<or> b = CHR ''-'' \<or> b = CHR ''~'')"

definition hex_upper :: "nat \<Rightarrow> char" where
  "hex_upper d = (if d < 10 then char_of (48 + d) else char_of (55 + d))"

text \<open>\<^verbatim>\<open>'%{:02X}'.format(b)\<close> for a byte that is not safe.\<close>

definition quoter :: "string \<Rightarrow> char \<Rightarrow> string" where
  "quoter safe b =
     (if always_safe b \<or> b \<in> set safe then [b]
      else [CHR ''%'', hex_upper ((of_char b :: nat) div 16), hex_upper ((of_char b :: nat) mod 16)])"

definition quote_from_bytes :: "char list \<Rightarrow> string \<Rightarrow> string" where
  "quote_from_bytes bs safe =
     (if bs = [] then []
      else let safe = filter (\<lambda>c. (of_char c :: nat) < 128) safe in
           if list_all (\<lambda>b. always_safe b \<or> b \<in> set safe) bs then bs
           else concat (map (quoter safe) bs))"

definition quote :: "string \<Rightarrow> string \<Rightarrow> string" where
  "quote string safe = (if string = [] then string else quote_from_bytes (utf8_encode string) safe)"

text \<open>\<^verbatim>\<open>sep.join(xs)\<close>\<close>

fun join :: "string \<Rightarrow> string list \<Rightarrow> string" where
  "join sep [] = []"
| "join sep [x] = x"
| "join sep (x # y # ys) = x @ sep @ join sep (y # ys)"

text \<open>
  \<^verbatim>\<open>urlencode(query, quote_via=quote)\<close> on a dict of strings: the items in insertion
  order, key and value quoted with no extra safe character.
\<close>

definition urlencode :: "(string \<times> string) list \<Rightarrow> string" where
  "urlencode query = join ''&'' (map (\<lambda>(k, v). quote k [] @ ''='' @ quote v []) query)"

text \<open>\<^verbatim>\<open>d[k] = v\<close> on a dict in insertion order: a new key goes to the end.\<close>

fun dict_set :: "(string \<times> string) list \<Rightarrow> string \<Rightarrow> string \<Rightarrow> (string \<times> string) list" where
  "dict_set [] k v = [(k, v)]"
| "dict_set ((k', v') # d) k v = (if k' = k then (k, v) # d else (k', v') # dict_set d k v)"

text \<open>The truth value of an optional string: \<^verbatim>\<open>None\<close> and the empty string are false.\<close>

fun truthy :: "string option \<Rightarrow> bool" where
  "truthy None = False"
| "truthy (Some s) = (s \<noteq> [])"

definition vless_params :: "string \<Rightarrow> RealityInbound \<Rightarrow> string \<Rightarrow> (string \<times> string) list" where
  "vless_params fp inbound public_key =
     (let params = [(''type'', network inbound), (''security'', ''reality''),
                    (''sni'', sni inbound), (''fp'', fp), (''pbk'', public_key),
                    (''sid'', short_id inbound)]
      in if truthy (flow inbound) then dict_set params ''flow'' (the (flow inbound)) else params)"

definition build_vless_link ::
    "string \<Rightarrow> string \<Rightarrow> string \<Rightarrow> RealityInbound \<Rightarrow> string \<Rightarrow> string" where
  "build_vless_link server name fp inbound public_key =
     (let query = urlencode (vless_params fp inbound public_key);
          frag = quote name []
      in ''vless://'' @ uuid inbound @ ''@'' @ server @ '':'' @ str_int (port inbound)
           @ ''?'' @ query @ ''#'' @ frag)"

section \<open>Example documents\<close>

text \<open>A candidate with the required fields, its first client given with or without a flow.\<close>

definition candidate :: "string \<Rightarrow> json \<Rightarrow> pydict \<Rightarrow> string \<Rightarrow> string \<Rightarrow> json" where
  "candidate protocol port_any c0 network_in short_id_in =
     JDict [(''protocol'', JStr protocol), (''port'', port_any),
       (''settings'', JDict [(''clients'', JList [JDict c0])]),
       (''streamSettings'', JDict [(''network'', JStr network_in), (''security'', JStr ''reality''),
          (''realitySettings'', JDict [(''serverNames'', JList [JStr ''example.com'']),
             (''shortIds'', JList [JStr short_id_in]),
             (''privateKey'', JStr (replicate 32 CHR ''a''))])])]"

definition example_candidate :: json where
  "example_candidate =
     candidate ''vless'' (JInt 443) [(''id'', JStr ''11111111-1111-1111-1111-111111111111'')]
       ''tcp'' ''ab12''"

definition example_cfg :: pydict where
  "example_cfg = [(''inbounds'', JList [example_candidate])]"

definition example_record :: RealityInbound where
  "example_record =
     \<lparr>uuid = ''11111111-1111-1111-1111-111111111111'', flow = None, port = 443,
      network = ''tcp'', sni = ''example.com'', short_id = ''ab12'',
      private_key = replicate 32 CHR ''a''\<rparr>"

text \<open>Candidates that fail validation: another protocol, and a boolean port.\<close>

definition vmess_candidate :: json where
  "vmess_candidate =
     candidate ''vmess'' (JInt 443) [(''id'', JStr ''11111111-1111-1111-1111-111111111111'')]
       ''tcp'' ''ab12''"

definition bool_port_candidate :: json where
  "bool_port_candidate =
     candidate ''vless'' (JBool True) [(''id'', JStr ''11111111-1111-1111-1111-111111111111'')]
       ''tcp'' ''ab12''"

definition fallback_cfg :: pydict where
  "fallback_cfg = [(''inbounds'', JList [vmess_candidate, example_candidate])]"

definition no_match_cfg :: pydict where
  "no_match_cfg = [(''inbounds'', JList [vmess_candidate, bool_port_candidate])]"

text \<open>A candidate whose strings carry blanks around them and upper-case hex digits, with
  its record; and a candidate whose flow is blank.\<close>

definition padded_candidate :: json where
  "padded_candidate =
     candidate ''vless'' (JInt 443)
       [(''id'', JStr '' 11111111-1111-1111-1111-111111111111 ''),
        (''flow'', JStr '' xtls-rprx-vision'')]
       '' tcp'' ''AB12 ''"

definition padded_cfg :: pydict where
  "padded_cfg = [(''inbounds'', JList [padded_candidate])]"

definition padded_record :: RealityInbound where
  "padded_record =
     \<lparr>uuid = ''11111111-1111-1111-1111-111111111111'', flow = Some ''xtls-rprx-vision'',
      port = 443, network = ''tcp'', sni = ''example.com'', short_id = ''ab12'',
      private_key = replicate 32 CHR ''a''\<rparr>"

definition blank_flow_candidate :: json where
  "blank_flow_candidate =
     candidate ''vless'' (JInt 443)
       [(''id'', JStr ''11111111-1111-1111-1111-111111111111''), (''flow'', JStr ''  '')]
       ''tcp'' ''ab12''"

section \<open>The canonical form of a UUID\<close>

text \<open>
  The form the specification names: 36 characters, hexadecimal digits in groups of
  8, 4, 4, 4 and 12 with a hyphen between the groups. This predicate follows the words
  of the specification; the program has no such test, it calls \<^verbatim>\<open>uuid.UUID\<close>.
\<close>

definition canonical_uuid :: "string \<Rightarrow> bool" where
  "canonical_uuid u =
     (length u = 36
      \<and> list_all hex_char (take 8 u) \<and> u ! 8 = CHR ''-''
      \<and> list_all hex_char (take 4 (drop 9 u)) \<and> u ! 13 = CHR ''-''
      \<and> list_all hex_char (take 4 (drop 14 u)) \<and> u ! 18 = CHR ''-''
      \<and> list_all hex_char (take 4 (drop 19 u)) \<and> u ! 23 = CHR ''-''
      \<and> list_all hex_char (drop 24 u))"

section \<open>Reading a link back\<close>

text \<open>
  The program builds links and never reads one. The decoding that the round trip of the
  specification speaks of is written here after the words of the specification, with the
  usual meaning of the terms (RFC 3986, \<^verbatim>\<open>urllib.parse.unquote\<close>): \<^verbatim>\<open>%XY\<close> with two
  hexadecimal digits is the byte of that number, any other character is its own byte,
  and the bytes are read as UTF-8. Only code points up to U+00FF are strings of the
  model, so only one-byte and two-byte sequences decode.
\<close>

fun percent_decode :: "string \<Rightarrow> char list" where
  "percent_decode (c # h1 # h2 # cs) =
     (if c = CHR ''%''
      then (case (hex_digit_value h1, hex_digit_value h2) of
              (Some a, Some b) \<Rightarrow> char_of (16 * a + b) # percent_decode cs
            | _ \<Rightarrow> c # percent_decode (h1 # h2 # cs))
      else c # percent_decode (h1 # h2 # cs))"
| "percent_decode cs = cs"

fun utf8_decode :: "char list \<Rightarrow> string option" where
  "utf8_decode [] = Some []"
| "utf8_decode [b] =
     (if (of_char b :: nat) < 128 then Some [b] else None)"
| "utf8_decode (b # b2 # bs) =
     (let n = (of_char b :: nat); m = (of_char b2 :: nat) in
      if n < 128 then map_option (Cons b) (utf8_decode (b2 # bs))
      else if (n = 194 \<or> n = 195) \<and> 128 \<le> m \<and> m < 192
      then map_option (Cons (char_of ((n - 192) * 64 + (m - 128)))) (utf8_decode bs)
      else None)"

definition unquote :: "string \<Rightarrow> string option" where
  "unquote s = utf8_decode (percent_decode s)"

text \<open>\<^verbatim>\<open>s.split(sep)\<close> for a separator of one character.\<close>

fun split_on :: "char \<Rightarrow> string \<Rightarrow> string list" where
  "split_on sep [] = [[]]"
| "split_on sep (c # cs) =
     (if c = sep then [] # split_on sep cs
      else (case split_on sep cs of [] \<Rightarrow> [[c]] | x # xs \<Rightarrow> (c # x) # xs))"

text \<open>
  The parameters of a query: the pieces between \<^verbatim>\<open>&\<close>, each a key, \<^verbatim>\<open>=\<close> and a value
  (an empty value is kept), key and value decoded. \<open>None\<close> when a piece does not decode.
\<close>

definition parse_pair :: "string \<Rightarrow> (string \<times> string) option" where
  "parse_pair piece =
     (case (unquote (takeWhile (\<lambda>c. c \<noteq> CHR ''='') piece),
            unquote (drop 1 (dropWhile (\<lambda>c. c \<noteq> CHR ''='') piece))) of
        (Some k, Some v) \<Rightarrow> Some (k, v)
      | _ \<Rightarrow> None)"

fun sequence_options :: "'a option list \<Rightarrow> 'a list option" where
  "sequence_options [] = Some []"
| "sequence_options (x # xs) =
     (case (x, sequence_options xs) of (Some y, Some ys) \<Rightarrow> Some (y # ys) | _ \<Rightarrow> None)"

definition parse_qsl :: "string \<Rightarrow> (string \<times> string) list option" where
  "parse_qsl q = (if q = [] then Some [] else sequence_options (map parse_pair (split_on CHR ''&'' q)))"

text \<open>
  The fragment and the query of a link. The identifier and the server stand in the link
  as they are, so the two are found from the end: the fragment is what follows the
  last \<^verbatim>\<open>#\<close>, the query what stands between the last \<^verbatim>\<open>?\<close> before it and that \<^verbatim>\<open>#\<close>.
\<close>

definition link_fragment :: "string \<Rightarrow> string" where
  "link_fragment u = rev (takeWhile (\<lambda>c. c \<noteq> CHR ''#'') (rev u))"

definition link_query :: "string \<Rightarrow> string" where
  "link_query u =
     rev (takeWhile (\<lambda>c. c \<noteq> CHR ''?'') (drop 1 (dropWhile (\<lambda>c. c \<noteq> CHR ''#'') (rev u))))"

text \<open>
  The split of RFC 3986, from the front: the fragment follows the first \<^verbatim>\<open>#\<close>, the query
  stands between the first \<^verbatim>\<open>?\<close> and that \<^verbatim>\<open>#\<close>.
\<close>

definition urlsplit_fragment :: "string \<Rightarrow> string" where
  "urlsplit_fragment u = drop 1 (dropWhile (\<lambda>c. c \<noteq> CHR ''#'') u)"

definition urlsplit_query :: "string \<Rightarrow> string" where
  "urlsplit_query u =
     drop 1 (dropWhile (\<lambda>c. c \<noteq> CHR ''?'') (takeWhile (\<lambda>c. c \<noteq> CHR ''#'') u))"

text \<open>The characters that \<^verbatim>\<open>int(s, 16)\<close> can accept anywhere in its argument.\<close>

definition int_char :: "char \<Rightarrow> bool" where
  "int_char c = (int_isspace c \<or> c = CHR ''+'' \<or> c = CHR ''-'' \<or> c = CHR ''0'' \<or> c = CHR ''x''
      \<or> c = CHR ''X'' \<or> c = CHR ''_'' \<or> hex_digit_value c \<noteq> None)"

section \<open>Properties of the typed accessors\<close>

text \<open>
  Claim C9. The integer accessor fails for every boolean, although a boolean passes
  the test \<^verbatim>\<open>isinstance(v, int)\<close>, and returns the value itself for every integer
  that is not a boolean.
\<close>

theorem expect_int_bool_rejected_int_returned:
  "isinstance_int (JBool b) \<and> expect_int (JBool b) whr = Inl (ExpectedInteger whr)
     \<and> expect_int (JInt n) whr = Inr n"
  by (simp add: expect_int_def)

theorem expect_int_bool_rejected_int_returned_witness:
  "isinstance_int (JBool True)
     \<and> expect_int (JBool True) ''inbounds[0].port'' = Inl (ExpectedInteger ''inbounds[0].port'')
     \<and> expect_int (JInt 443) ''inbounds[0].port'' = Inr 443"
  by (rule expect_int_bool_rejected_int_returned)

section \<open>The example scenario\<close>

text \<open>
  Claim C1. For the example document (one inbound: vless, port 443, the client id
  11111111-1111-1111-1111-111111111111, network tcp, security reality, server name
  example.com, short id ab12, private key 32 times a) extraction returns the record of
  that inbound, and with server 1.2.3.4, name x, fingerprint chrome and the public key
  PUBKEY followed by 26 times B the link is exactly the string of the claim.
\<close>

theorem example_scenario_link:
  "select_inbound example_cfg None = Inr example_record
   \<and> build_vless_link ''1.2.3.4'' ''x'' ''chrome'' example_record
        (''PUBKEY'' @ replicate 26 CHR ''B'')
     = ''vless://11111111-1111-1111-1111-111111111111@1.2.3.4:443?type=tcp&security=reality&sni=example.com&fp=chrome&pbk=PUBKEYBBBBBBBBBBBBBBBBBBBBBBBBBB&sid=ab12#x''"
  by code_simp

theorem example_scenario_link_witness:
  "(case select_inbound example_cfg None of
      Inl e \<Rightarrow> None
    | Inr r \<Rightarrow> Some (build_vless_link ''1.2.3.4'' ''x'' ''chrome'' r
                       (''PUBKEY'' @ replicate 26 CHR ''B'')))
   = Some ''vless://11111111-1111-1111-1111-111111111111@1.2.3.4:443?type=tcp&security=reality&sni=example.com&fp=chrome&pbk=PUBKEYBBBBBBBBBBBBBBBBBBBBBBBBBB&sid=ab12#x''"
  using example_scenario_link by simp

section \<open>Selection: automatic and by index\<close>

lemma scan_inbounds_first_success:
  "\<forall>j<length pre. isl (parse_one (idx + j) (pre ! j)) \<Longrightarrow>
   parse_one (idx + length pre) ib = Inr r \<Longrightarrow>
   scan_inbounds idx (pre @ ib # post) last_err = Inr r"
proof (induction pre arbitrary: idx last_err)
  case Nil
  then show ?case by simp
next
  case (Cons a pre)
  from Cons.prems(1) have a: "isl (parse_one idx a)" by force
  have rest: "\<forall>j<length pre. isl (parse_one (Suc idx + j) (pre ! j))"
  proof (intro allI impI)
    fix j assume "j < length pre"
    with Cons.prems(1) have "isl (parse_one (idx + Suc j) ((a # pre) ! Suc j))" by force
    then show "isl (parse_one (Suc idx + j) (pre ! j))" by simp
  qed
  from Cons.prems(2) have "parse_one (Suc idx + length pre) ib = Inr r" by simp
  from Cons.IH[OF rest this] a show ?case
    by (cases "parse_one idx a") simp_all
qed

lemma scan_inbounds_all_fail:
  "\<forall>j<length ibs. isl (parse_one (idx + j) (ibs ! j)) \<Longrightarrow>
   scan_inbounds idx ibs last_err =
     Inl (NoMatchingInbound
            (if ibs = [] then last_err
             else Some (projl (parse_one (idx + length ibs - 1) (last ibs)))))"
proof (induction ibs arbitrary: idx last_err)
  case Nil
  then show ?case by simp
next
  case (Cons a ibs)
  from Cons.prems have a: "isl (parse_one idx a)" by force
  have rest: "\<forall>j<length ibs. isl (parse_one (Suc idx + j) (ibs ! j))"
  proof (intro allI impI)
    fix j assume "j < length ibs"
    with Cons.prems have "isl (parse_one (idx + Suc j) ((a # ibs) ! Suc j))" by force
    then show "isl (parse_one (Suc idx + j) (ibs ! j))" by simp
  qed
  from a obtain e where e: "parse_one idx a = Inl e" by (cases "parse_one idx a") simp_all
  show ?case using Cons.IH[OF rest, of "Some e"] e
    by (cases ibs) simp_all
qed

text \<open>
  Claim C2. With no explicit index, and the inbounds a list, the candidates are tried
  in array order: when candidate \<open>k\<close> validates and every candidate before it fails,
  the record of candidate \<open>k\<close> is returned; when the list is not empty and every
  candidate fails, extraction fails with the aggregate error that carries the error of
  the last candidate. (An empty list is refused before the scan.)
\<close>

theorem auto_select:
  assumes "dict_get cfg ''inbounds'' = JList ibs"
  shows "(k < length ibs \<and> (\<forall>j<k. isl (parse_one j (ibs ! j))) \<and> parse_one k (ibs ! k) = Inr r
            \<longrightarrow> select_inbound cfg None = Inr r)
       \<and> (ibs \<noteq> [] \<and> (\<forall>j<length ibs. isl (parse_one j (ibs ! j)))
             \<and> parse_one (length ibs - 1) (last ibs) = Inl e
            \<longrightarrow> select_inbound cfg None = Inl (NoMatchingInbound (Some e)))"
proof (intro conjI impI)
  assume h: "k < length ibs \<and> (\<forall>j<k. isl (parse_one j (ibs ! j))) \<and> parse_one k (ibs ! k) = Inr r"
  then have k: "k < length ibs" by simp
  have split: "ibs = take k ibs @ ibs ! k # drop (Suc k) ibs"
    using k by (simp add: id_take_nth_drop)
  have len: "length (take k ibs) = k" using k by simp
  have pre: "\<forall>j<length (take k ibs). isl (parse_one (0 + j) (take k ibs ! j))"
    using h by simp
  have "scan_inbounds 0 (take k ibs @ ibs ! k # drop (Suc k) ibs) None = Inr r"
    by (rule scan_inbounds_first_success[OF pre]) (use h len in simp)
  with split have "scan_inbounds 0 ibs None = Inr r" by simp
  moreover have "ibs \<noteq> []" using k by auto
  ultimately show "select_inbound cfg None = Inr r"
    using assms by (simp add: select_inbound_def and_then_def)
next
  assume h: "ibs \<noteq> [] \<and> (\<forall>j<length ibs. isl (parse_one j (ibs ! j)))
             \<and> parse_one (length ibs - 1) (last ibs) = Inl e"
  then have "\<forall>j<length ibs. isl (parse_one (0 + j) (ibs ! j))" by simp
  from scan_inbounds_all_fail[OF this, of None] h
  have "scan_inbounds 0 ibs None = Inl (NoMatchingInbound (Some e))" by simp
  with h show "select_inbound cfg None = Inl (NoMatchingInbound (Some e))"
    using assms by (simp add: select_inbound_def and_then_def)
qed

theorem auto_select_witness:
  "select_inbound fallback_cfg None = Inr example_record
   \<and> select_inbound no_match_cfg None
       = Inl (NoMatchingInbound (Some (ExpectedInteger ''inbounds[1].port'')))"
proof -
  have g1: "dict_get fallback_cfg ''inbounds'' = JList [vmess_candidate, example_candidate]"
    by code_simp
  have g2: "dict_get no_match_cfg ''inbounds'' = JList [vmess_candidate, bool_port_candidate]"
    by code_simp
  have f0: "isl (parse_one 0 vmess_candidate)"
    by code_simp
  have s1: "parse_one 1 example_candidate = Inr example_record"
    by code_simp
  have f1: "parse_one 1 bool_port_candidate = Inl (ExpectedInteger ''inbounds[1].port'')"
    by code_simp
  have before: "\<forall>j<1. isl (parse_one j ([vmess_candidate, example_candidate] ! j))"
    using f0 by simp
  have every: "\<forall>j<length [vmess_candidate, bool_port_candidate].
                 isl (parse_one j ([vmess_candidate, bool_port_candidate] ! j))"
    using f0 f1 by (simp add: less_Suc_eq)
  have "select_inbound fallback_cfg None = Inr example_record"
    using auto_select[OF g1, of 1 example_record] before s1 by simp
  moreover have "select_inbound no_match_cfg None
       = Inl (NoMatchingInbound (Some (ExpectedInteger ''inbounds[1].port'')))"
    using auto_select[OF g2, of _ _ "ExpectedInteger ''inbounds[1].port''"] every f1 by simp
  ultimately show ?thesis by simp
qed

text \<open>
  Claim C3. With an explicit index, and the inbounds a list that is not empty, an index
  below 0 or from the length on fails with the range error that names the range from 0 to
  the length less one; an index in the range gives exactly the result of validating
  that one candidate, its error included, whatever the other candidates are.
\<close>

theorem explicit_index:
  assumes "dict_get cfg ''inbounds'' = JList ibs" and "ibs \<noteq> []"
  shows "(i < 0 \<or> int (length ibs) \<le> i
            \<longrightarrow> select_inbound cfg (Some i) = Inl (InboundIndexOutOfRange i (int (length ibs) - 1)))
       \<and> (0 \<le> i \<and> i < int (length ibs)
            \<longrightarrow> select_inbound cfg (Some i) = parse_one (nat i) (ibs ! nat i))"
  using assms by (auto simp add: select_inbound_def and_then_def)


theorem explicit_index_witness:
  "select_inbound fallback_cfg (Some 2) = Inl (InboundIndexOutOfRange 2 1)
   \<and> select_inbound fallback_cfg (Some (- 1)) = Inl (InboundIndexOutOfRange (- 1) 1)
   \<and> select_inbound fallback_cfg (Some 0) = Inl (ProtocolNotVless 0 (JStr ''vmess''))
   \<and> select_inbound fallback_cfg None = Inr example_record"
proof -
  have g1: "dict_get fallback_cfg ''inbounds'' = JList [vmess_candidate, example_candidate]"
    by code_simp
  have ne: "[vmess_candidate, example_candidate] \<noteq> []"
    by simp
  have f0: "parse_one 0 vmess_candidate = Inl (ProtocolNotVless 0 (JStr ''vmess''))"
    by code_simp
  have auto: "select_inbound fallback_cfg None = Inr example_record"
    by code_simp
  show ?thesis
    using explicit_index[OF g1 ne, of 2] explicit_index[OF g1 ne, of "- 1"]
      explicit_index[OF g1 ne, of 0] f0 auto
    by simp
qed

section \<open>What a successful extraction has read\<close>

lemma and_then_Inr: "and_then m f = Inr r \<longleftrightarrow> (\<exists>x. m = Inr x \<and> f x = Inr r)"
  by (cases m) (simp_all add: and_then_def)

lemma if_Inl_Inr: "((if c then Inl e else m) = Inr r) \<longleftrightarrow> (\<not> c \<and> m = Inr r)"
  by simp

lemma expect_dict_Inr: "expect_dict v w = Inr d \<longleftrightarrow> v = JDict d"
  by (cases v) auto

lemma expect_list_Inr: "expect_list v w = Inr xs \<longleftrightarrow> v = JList xs"
  by (cases v) auto

lemma expect_str_Inr:
  "expect_str v w = Inr s \<longleftrightarrow> (\<exists>t. v = JStr t \<and> strip t \<noteq> [] \<and> s = strip t)"
  by (cases v) auto

lemma expect_int_Inr: "expect_int v w = Inr n \<longleftrightarrow> v = JInt n"
  by (cases v) (auto simp: expect_int_def)

lemma read_flow_Inr:
  "read_flow idx v = Inr fl \<longleftrightarrow>
     (v = JNull \<and> fl = None) \<or> (\<exists>t. v = JStr t \<and> strip t \<noteq> [] \<and> fl = Some (strip t))"
  by (cases v) (auto simp: read_flow_def and_then_Inr expect_str_Inr)

lemma parse_one_Inr:
  "parse_one idx v = Inr r \<longleftrightarrow>
   (\<exists>ib p st c0 cs u fl ss n sec rs sn sns sid sids pk.
      v = JDict ib
      \<and> dict_get ib ''protocol'' = JStr ''vless''
      \<and> dict_get ib ''port'' = JInt p \<and> 1 \<le> p \<and> p \<le> 65535
      \<and> dict_get ib ''settings'' = JDict st
      \<and> dict_get st ''clients'' = JList (JDict c0 # cs)
      \<and> dict_get c0 ''id'' = JStr u \<and> strip u \<noteq> []
      \<and> read_flow idx (dict_get c0 ''flow'') = Inr fl
      \<and> dict_get ib ''streamSettings'' = JDict ss
      \<and> dict_get ss ''network'' = JStr n \<and> strip n \<noteq> []
      \<and> dict_get ss ''security'' = JStr sec \<and> strip sec = ''reality''
      \<and> dict_get ss ''realitySettings'' = JDict rs
      \<and> dict_get rs ''serverNames'' = JList (JStr sn # sns) \<and> strip sn \<noteq> []
      \<and> dict_get rs ''shortIds'' = JList (JStr sid # sids) \<and> strip sid \<noteq> []
      \<and> dict_get rs ''privateKey'' = JStr pk \<and> strip pk \<noteq> []
      \<and> validate_uuid (strip u) = Inr ()
      \<and> validate_short_id (strip sid) = Inr ()
      \<and> validate_private_key (strip pk) = Inr ()
      \<and> r = \<lparr>uuid = strip u, flow = fl, port = p, network = strip n, sni = strip sn,
              short_id = lower (strip sid), private_key = strip pk\<rparr>)"
  (is "?L \<longleftrightarrow> ?R")
proof
  assume ?L
  then show ?R
    unfolding parse_one_def Let_def and_then_Inr if_Inl_Inr expect_dict_Inr expect_list_Inr
      expect_str_Inr expect_int_Inr
    by (auto simp: neq_Nil_conv)
next
  assume ?R
  then show ?L
    unfolding parse_one_def Let_def and_then_Inr if_Inl_Inr expect_dict_Inr expect_list_Inr
      expect_str_Inr expect_int_Inr
    by auto
qed


lemma scan_inbounds_Inr:
  "scan_inbounds idx ibs last_err = Inr r \<Longrightarrow>
   \<exists>j<length ibs. parse_one (idx + j) (ibs ! j) = Inr r"
proof (induction ibs arbitrary: idx last_err)
  case Nil
  then show ?case by simp
next
  case (Cons a ibs)
  show ?case
  proof (cases "parse_one idx a")
    case (Inr r')
    with Cons.prems have "parse_one (idx + 0) ((a # ibs) ! 0) = Inr r" by simp
    then show ?thesis by blast
  next
    case (Inl e)
    with Cons.prems have "scan_inbounds (Suc idx) ibs (Some e) = Inr r" by simp
    from Cons.IH[OF this] obtain j where "j < length ibs"
      and "parse_one (Suc idx + j) (ibs ! j) = Inr r" by blast
    then have "Suc j < length (a # ibs) \<and> parse_one (idx + Suc j) ((a # ibs) ! Suc j) = Inr r"
      by simp
    then show ?thesis by blast
  qed
qed

lemma select_inbound_Inr:
  assumes "select_inbound cfg inbound_index = Inr r"
  shows "\<exists>ibs i. dict_get cfg ''inbounds'' = JList ibs \<and> i < length ibs
           \<and> parse_one i (ibs ! i) = Inr r"
proof -
  from assms obtain ibs where g: "dict_get cfg ''inbounds'' = JList ibs" and ne: "ibs \<noteq> []"
    and sel: "(case inbound_index of
                 Some i \<Rightarrow> if i < 0 \<or> i \<ge> int (length ibs)
                   then Inl (InboundIndexOutOfRange i (int (length ibs) - 1))
                   else parse_one (nat i) (ibs ! nat i)
               | None \<Rightarrow> scan_inbounds 0 ibs None) = Inr r"
    unfolding select_inbound_def and_then_Inr expect_list_Inr if_Inl_Inr by blast
  show ?thesis
  proof (cases inbound_index)
    case None
    with sel have "scan_inbounds 0 ibs None = Inr r" by simp
    from scan_inbounds_Inr[OF this] g show ?thesis by auto
  next
    case (Some i)
    with sel have "0 \<le> i" "i < int (length ibs)" "parse_one (nat i) (ibs ! nat i) = Inr r"
      by (auto split: if_splits)
    then have "nat i < length ibs" by simp
    with g \<open>parse_one (nat i) (ibs ! nat i) = Inr r\<close> show ?thesis by blast
  qed
qed

lemma dropWhile_fix: "xs = [] \<or> \<not> P (hd xs) \<Longrightarrow> dropWhile P xs = xs"
  by (cases xs) auto

lemma strip_ends:
  assumes "strip s \<noteq> []"
  shows "\<not> isspace (hd (strip s)) \<and> \<not> isspace (last (strip s))"
proof -
  define a where "a = dropWhile isspace s"
  define b where "b = dropWhile isspace (rev a)"
  have sb: "strip s = rev b" by (simp add: strip_def a_def b_def)
  with assms have bne: "b \<noteq> []" by simp
  then have hb: "\<not> isspace (hd b)" unfolding b_def by (rule hd_dropWhile)
  from bne have ane: "a \<noteq> []" unfolding b_def by auto
  then have ha: "\<not> isspace (hd a)" unfolding a_def by (rule hd_dropWhile)
  obtain pre where "rev a = pre @ b"
    unfolding b_def by (metis takeWhile_dropWhile_id)
  with bne have "last b = last (rev a)" by simp
  also have "\<dots> = hd a" using ane by (simp add: last_rev)
  finally have "\<not> isspace (last b)" using ha by simp
  with hb bne sb show ?thesis by (simp add: hd_rev last_rev)
qed

lemma strip_idem: "strip (strip s) = strip s"
proof (cases "strip s = []")
  case True
  have "strip [] = []" by (simp add: strip_def)
  with True show ?thesis by simp
next
  case False
  from strip_ends[OF False] have h: "\<not> isspace (hd (strip s))" and l: "\<not> isspace (last (strip s))"
    by simp_all
  have 1: "dropWhile isspace (strip s) = strip s"
    using h by (intro dropWhile_fix) simp
  have 2: "dropWhile isspace (rev (strip s)) = rev (strip s)"
    using l False by (intro dropWhile_fix) (simp add: hd_rev)
  show ?thesis
    by (subst strip_def[of "strip s"]) (simp add: 1 2)
qed


lemma validate_uuid_nonempty: "validate_uuid [] = Inl (InvalidUUID [])"
  by (simp add: validate_uuid_def UUID_def strip_chars_def)

lemma validate_short_id_nonempty: "validate_short_id [] \<noteq> Inr ()"
  by (simp add: validate_short_id_def HEX_RE_match_def)

lemma validate_private_key_nonempty: "validate_private_key [] \<noteq> Inr ()"
  by (simp add: validate_private_key_def B64URL_RE_match_def)

text \<open>
  Claim C5, as amended. For a document whose inbounds are one candidate with protocol
  vless, a port from 1 to 65535, security reality (once trimmed) and every required
  field present and valid, extraction (automatic or with index 0) returns the record
  whose identifier, flow, transport, server name and private key are the input strings
  with the blanks around them trimmed, and whose short id is the trimmed input in
  lower case.
\<close>

theorem extraction_trims_and_copies:
  assumes "dict_get cfg ''inbounds'' = JList [JDict ib]"
    and "dict_get ib ''protocol'' = JStr ''vless''"
    and "dict_get ib ''port'' = JInt p" and "1 \<le> p" and "p \<le> 65535"
    and "dict_get ib ''settings'' = JDict st"
    and "dict_get st ''clients'' = JList (JDict c0 # cs)"
    and "dict_get c0 ''id'' = JStr u"
    and "dict_get c0 ''flow'' = (case f of None \<Rightarrow> JNull | Some t \<Rightarrow> JStr t)"
    and "\<forall>t. f = Some t \<longrightarrow> strip t \<noteq> []"
    and "dict_get ib ''streamSettings'' = JDict ss"
    and "dict_get ss ''network'' = JStr n" and "strip n \<noteq> []"
    and "dict_get ss ''security'' = JStr sec" and "strip sec = ''reality''"
    and "dict_get ss ''realitySettings'' = JDict rs"
    and "dict_get rs ''serverNames'' = JList (JStr sn # sns)" and "strip sn \<noteq> []"
    and "dict_get rs ''shortIds'' = JList (JStr sid # sids)"
    and "dict_get rs ''privateKey'' = JStr pk"
    and "validate_uuid (strip u) = Inr ()"
    and "validate_short_id (strip sid) = Inr ()"
    and "validate_private_key (strip pk) = Inr ()"
  shows "select_inbound cfg None
           = Inr \<lparr>uuid = strip u, flow = map_option strip f, port = p, network = strip n,
                  sni = strip sn, short_id = lower (strip sid), private_key = strip pk\<rparr>
       \<and> select_inbound cfg (Some 0) = select_inbound cfg None"
proof -
  let ?r = "\<lparr>uuid = strip u, flow = map_option strip f, port = p, network = strip n,
             sni = strip sn, short_id = lower (strip sid), private_key = strip pk\<rparr>"
  have u: "strip u \<noteq> []"
    using assms(21) validate_uuid_nonempty by auto
  have sid: "strip sid \<noteq> []"
    using assms(22) validate_short_id_nonempty by auto
  have pk: "strip pk \<noteq> []"
    using assms(23) validate_private_key_nonempty by auto
  have fl: "read_flow 0 (dict_get c0 ''flow'') = Inr (map_option strip f)"
    using assms(9,10) by (cases f) (simp_all add: read_flow_Inr)
  have one: "parse_one 0 (JDict ib) = Inr ?r"
    unfolding parse_one_Inr
    using assms(2-8) assms(11-23) u sid pk fl by simp
  have "select_inbound cfg None = Inr ?r"
    using assms(1) one by (simp add: select_inbound_def and_then_def)
  moreover have "select_inbound cfg (Some 0) = Inr ?r"
    using assms(1) one by (simp add: select_inbound_def and_then_def)
  ultimately show ?thesis by simp
qed

theorem extraction_trims_and_copies_witness:
  "select_inbound padded_cfg None = Inr padded_record
   \<and> select_inbound padded_cfg (Some 0) = select_inbound padded_cfg None"
proof -
  let ?u = "'' 11111111-1111-1111-1111-111111111111 ''"
  let ?c0 = "[(''id'', JStr ?u), (''flow'', JStr '' xtls-rprx-vision'')]"
  let ?pk = "replicate 32 CHR ''a''"
  let ?rs = "[(''serverNames'', JList [JStr ''example.com'']),
              (''shortIds'', JList [JStr ''AB12 '']), (''privateKey'', JStr ?pk)]"
  let ?ss = "[(''network'', JStr '' tcp''), (''security'', JStr ''reality''),
              (''realitySettings'', JDict ?rs)]"
  let ?st = "[(''clients'', JList [JDict ?c0])]"
  let ?ib = "[(''protocol'', JStr ''vless''), (''port'', JInt 443),
              (''settings'', JDict ?st), (''streamSettings'', JDict ?ss)]"
  have a1: "dict_get padded_cfg ''inbounds'' = JList [JDict ?ib]" by code_simp
  have a2: "dict_get ?ib ''protocol'' = JStr ''vless''" by code_simp
  have a3: "dict_get ?ib ''port'' = JInt 443" by code_simp
  have a4: "(1::int) \<le> 443" by simp
  have a5: "(443::int) \<le> 65535" by simp
  have a6: "dict_get ?ib ''settings'' = JDict ?st" by code_simp
  have a7: "dict_get ?st ''clients'' = JList (JDict ?c0 # [])" by code_simp
  have a8: "dict_get ?c0 ''id'' = JStr ?u" by code_simp
  have a9: "dict_get ?c0 ''flow''
              = (case Some '' xtls-rprx-vision'' of None \<Rightarrow> JNull | Some t \<Rightarrow> JStr t)"
    by code_simp
  have f: "strip '' xtls-rprx-vision'' = ''xtls-rprx-vision''" by code_simp
  have a10: "\<forall>t. Some '' xtls-rprx-vision'' = Some t \<longrightarrow> strip t \<noteq> []"
    using f by auto
  have a11: "dict_get ?ib ''streamSettings'' = JDict ?ss" by code_simp
  have a12: "dict_get ?ss ''network'' = JStr '' tcp''" by code_simp
  have n: "strip '' tcp'' = ''tcp''" by code_simp
  have a13: "strip '' tcp'' \<noteq> []" by code_simp
  have a14: "dict_get ?ss ''security'' = JStr ''reality''" by code_simp
  have a15: "strip ''reality'' = ''reality''" by code_simp
  have a16: "dict_get ?ss ''realitySettings'' = JDict ?rs" by code_simp
  have a17: "dict_get ?rs ''serverNames'' = JList (JStr ''example.com'' # [])" by code_simp
  have sn: "strip ''example.com'' = ''example.com''" by code_simp
  have a18: "strip ''example.com'' \<noteq> []" by code_simp
  have a19: "dict_get ?rs ''shortIds'' = JList (JStr ''AB12 '' # [])" by code_simp
  have a20: "dict_get ?rs ''privateKey'' = JStr ?pk" by code_simp
  have a21: "validate_uuid (strip ?u) = Inr ()" by code_simp
  have a22: "validate_short_id (strip ''AB12 '') = Inr ()" by code_simp
  have a23: "validate_private_key (strip ?pk) = Inr ()" by code_simp
  have u: "strip ?u = ''11111111-1111-1111-1111-111111111111''" by code_simp
  have sid: "lower (strip ''AB12 '') = ''ab12''" by code_simp
  have pk: "strip ?pk = ?pk" by code_simp
  note w = extraction_trims_and_copies[OF a1 a2 a3 a4 a5 a6 a7 a8 a9 a10 a11 a12 a13 a14 a15
      a16 a17 a18 a19 a20 a21 a22 a23]
  have "select_inbound padded_cfg None = Inr padded_record"
    using w[THEN conjunct1] by (simp add: u f n sn sid pk padded_record_def)
  with w[THEN conjunct2] show ?thesis by simp
qed

text \<open>
  The claim as stated fails: with the network given as '' tcp'' (a blank in front) the
  record has the network ''tcp'', which is not the input value unchanged.
\<close>

theorem unchanged_fields_counterexample:
  "\<not> (\<forall>n sid r.
        select_inbound
          [(''inbounds'', JList [candidate ''vless'' (JInt 443)
              [(''id'', JStr ''11111111-1111-1111-1111-111111111111'')] n sid])] None = Inr r
        \<longrightarrow> network r = n \<and> short_id r = lower sid)"
proof
  assume h: "\<forall>n sid r.
        select_inbound
          [(''inbounds'', JList [candidate ''vless'' (JInt 443)
              [(''id'', JStr ''11111111-1111-1111-1111-111111111111'')] n sid])] None = Inr r
        \<longrightarrow> network r = n \<and> short_id r = lower sid"
  have "select_inbound
          [(''inbounds'', JList [candidate ''vless'' (JInt 443)
              [(''id'', JStr ''11111111-1111-1111-1111-111111111111'')] '' tcp'' ''AB12 ''])] None
        = Inr example_record"
    by code_simp
  with h have "network example_record = '' tcp''" by blast
  then show False by (simp add: example_record_def)
qed


section \<open>The flow of an extracted record\<close>

lemma extracted_flow:
  assumes "select_inbound cfg inbound_index = Inr r"
  shows "\<exists>ibs i ib st c0 cs.
             dict_get cfg ''inbounds'' = JList ibs \<and> i < length ibs \<and> ibs ! i = JDict ib
             \<and> dict_get ib ''settings'' = JDict st
             \<and> dict_get st ''clients'' = JList (JDict c0 # cs)
             \<and> ((dict_get c0 ''flow'' = JNull \<and> flow r = None)
                \<or> (\<exists>t. dict_get c0 ''flow'' = JStr t \<and> strip t \<noteq> [] \<and> flow r = Some (strip t)))"
proof -
  from select_inbound_Inr[OF assms] obtain ibs i where
    g: "dict_get cfg ''inbounds'' = JList ibs" and i: "i < length ibs"
    and p: "parse_one i (ibs ! i) = Inr r" by blast
  from p[unfolded parse_one_Inr] obtain ib st c0 cs where
    ib: "ibs ! i = JDict ib" and st: "dict_get ib ''settings'' = JDict st"
    and c0: "dict_get st ''clients'' = JList (JDict c0 # cs)"
    and fl: "read_flow i (dict_get c0 ''flow'') = Inr (flow r)"
    by auto
  from fl have "(dict_get c0 ''flow'' = JNull \<and> flow r = None)
      \<or> (\<exists>t. dict_get c0 ''flow'' = JStr t \<and> strip t \<noteq> [] \<and> flow r = Some (strip t))"
    by (simp add: read_flow_Inr)
  with g i ib st c0 show ?thesis by blast
qed

lemma extracted_flow_shape:
  assumes "select_inbound cfg inbound_index = Inr r"
  shows "flow r = None \<or> (\<exists>s. flow r = Some s \<and> s \<noteq> [] \<and> strip s = s)"
  using extracted_flow[OF assms] by (auto simp: strip_idem)

lemma blank_flow_fails:
  assumes "dict_get ib ''settings'' = JDict st"
    and "dict_get st ''clients'' = JList (JDict c0 # cs)"
    and "dict_get c0 ''flow'' = JStr t" and "strip t = []"
  shows "isl (parse_one idx (JDict ib))"
proof (cases "parse_one idx (JDict ib)")
  case (Inl e)
  then show ?thesis by simp
next
  case (Inr r)
  from Inr[unfolded parse_one_Inr] assms have "\<exists>fl. read_flow idx (JStr t) = Inr fl"
    by auto
  with assms(4) show ?thesis by (simp add: read_flow_Inr)
qed

text \<open>
  Claim C10. A record that extraction returns has no flow, or a flow that is a non-empty
  string without blanks around it; so its truth value, which the construction of the
  link tests, holds exactly when the flow is present. The flow was read from a first
  client whose flow is missing or null (then the record has none) or a string that is
  not blank; and a candidate whose first client has a blank string as flow fails
  validation.
\<close>

theorem extracted_flow_nonblank:
  assumes "select_inbound cfg inbound_index = Inr r"
  shows "(flow r = None \<or> (\<exists>s. flow r = Some s \<and> s \<noteq> [] \<and> strip s = s))
       \<and> (truthy (flow r) \<longleftrightarrow> flow r \<noteq> None)
       \<and> (\<exists>ibs i ib st c0 cs.
             dict_get cfg ''inbounds'' = JList ibs \<and> i < length ibs \<and> ibs ! i = JDict ib
             \<and> dict_get ib ''settings'' = JDict st
             \<and> dict_get st ''clients'' = JList (JDict c0 # cs)
             \<and> ((dict_get c0 ''flow'' = JNull \<and> flow r = None)
                \<or> (\<exists>t. dict_get c0 ''flow'' = JStr t \<and> strip t \<noteq> []
                         \<and> flow r = Some (strip t))))
       \<and> (\<forall>idx ib' st' c0' cs' t.
             dict_get ib' ''settings'' = JDict st'
             \<and> dict_get st' ''clients'' = JList (JDict c0' # cs')
             \<and> dict_get c0' ''flow'' = JStr t \<and> strip t = []
             \<longrightarrow> isl (parse_one idx (JDict ib')))"
proof -
  have 1: "flow r = None \<or> (\<exists>s. flow r = Some s \<and> s \<noteq> [] \<and> strip s = s)"
    by (rule extracted_flow_shape[OF assms])
  then have 2: "truthy (flow r) \<longleftrightarrow> flow r \<noteq> None"
    by auto
  note 3 = extracted_flow[OF assms]
  have 4: "\<forall>idx ib' st' c0' cs' t.
             dict_get ib' ''settings'' = JDict st'
             \<and> dict_get st' ''clients'' = JList (JDict c0' # cs')
             \<and> dict_get c0' ''flow'' = JStr t \<and> strip t = []
             \<longrightarrow> isl (parse_one idx (JDict ib'))"
    using blank_flow_fails by blast
  show ?thesis
    by (intro conjI) (rule 1, rule 2, rule 3, rule 4)
qed



theorem extracted_flow_nonblank_witness:
  "flow padded_record = Some ''xtls-rprx-vision''
   \<and> truthy (flow padded_record) = (flow padded_record \<noteq> None)
   \<and> isl (parse_one 0 blank_flow_candidate)"
proof -
  let ?c0 = "[(''id'', JStr ''11111111-1111-1111-1111-111111111111''), (''flow'', JStr ''  '')]"
  let ?st = "[(''clients'', JList [JDict ?c0])]"
  let ?ib = "[(''protocol'', JStr ''vless''), (''port'', JInt 443), (''settings'', JDict ?st),
       (''streamSettings'', JDict [(''network'', JStr ''tcp''), (''security'', JStr ''reality''),
          (''realitySettings'', JDict [(''serverNames'', JList [JStr ''example.com'']),
             (''shortIds'', JList [JStr ''ab12'']),
             (''privateKey'', JStr (replicate 32 CHR ''a''))])])]"
  have h: "select_inbound padded_cfg None = Inr padded_record" by code_simp
  note t = extracted_flow_nonblank[OF h]
  have b: "blank_flow_candidate = JDict ?ib" by code_simp
  have b1: "dict_get ?ib ''settings'' = JDict ?st" by code_simp
  have b2: "dict_get ?st ''clients'' = JList (JDict ?c0 # [])" by code_simp
  have b3: "dict_get ?c0 ''flow'' = JStr ''  ''" by code_simp
  have b4: "strip ''  '' = []" by code_simp
  from t[THEN conjunct2, THEN conjunct2, THEN conjunct2, rule_format, of ?ib ?st ?c0 "[]" "''  ''" 0]
    b1 b2 b3 b4
  have "isl (parse_one 0 (JDict ?ib))" by blast
  with b have 3: "isl (parse_one 0 blank_flow_candidate)" by simp
  have 1: "flow padded_record = Some ''xtls-rprx-vision''" by (simp add: padded_record_def)
  from t[THEN conjunct2, THEN conjunct1] 1 3 show ?thesis by simp
qed

section \<open>The shape of the link\<close>

lemma quote_keys:
  "quote ''type'' [] = ''type''" "quote ''security'' [] = ''security''"
  "quote ''sni'' [] = ''sni''" "quote ''fp'' [] = ''fp''" "quote ''pbk'' [] = ''pbk''"
  "quote ''sid'' [] = ''sid''" "quote ''flow'' [] = ''flow''"
  "quote ''reality'' [] = ''reality''"
  by code_simp+

lemma vless_params_cases:
  "flow r = None \<or> (\<exists>s. flow r = Some s \<and> s \<noteq> []) \<Longrightarrow>
   vless_params fp r public_key
     = [(''type'', network r), (''security'', ''reality''), (''sni'', sni r), (''fp'', fp),
        (''pbk'', public_key), (''sid'', short_id r)]
       @ (case flow r of None \<Rightarrow> [] | Some f \<Rightarrow> [(''flow'', f)])"
  by (auto simp: vless_params_def)

lemma join_amp:
  "join ''&'' (x # xs) = x @ concat (map (\<lambda>y. ''&'' @ y) xs)"
  by (induction xs arbitrary: x) simp_all

lemma urlencode_Cons:
  "urlencode ((k, v) # kvs)
     = quote k [] @ ''='' @ quote v []
       @ concat (map (\<lambda>kv. ''&'' @ quote (fst kv) [] @ ''='' @ quote (snd kv) []) kvs)"
  by (simp add: urlencode_def join_amp comp_def case_prod_beta)

lemma link_shape_aux:
  assumes "flow r = None \<or> (\<exists>s. flow r = Some s \<and> s \<noteq> [])"
  shows "build_vless_link server name fp r public_key
       = ''vless://'' @ uuid r @ ''@'' @ server @ '':'' @ str_int (port r)
         @ ''?type='' @ quote (network r) []
         @ ''&security=reality''
         @ ''&sni='' @ quote (sni r) []
         @ ''&fp='' @ quote fp []
         @ ''&pbk='' @ quote public_key []
         @ ''&sid='' @ quote (short_id r) []
         @ (case flow r of None \<Rightarrow> [] | Some f \<Rightarrow> ''&flow='' @ quote f [])
         @ ''#'' @ quote name []"
proof -
  have q: "urlencode (vless_params fp r public_key)
      = ''type='' @ quote (network r) []
         @ ''&security=reality''
         @ ''&sni='' @ quote (sni r) []
         @ ''&fp='' @ quote fp []
         @ ''&pbk='' @ quote public_key []
         @ ''&sid='' @ quote (short_id r) []
         @ (case flow r of None \<Rightarrow> [] | Some f \<Rightarrow> ''&flow='' @ quote f [])"
    unfolding vless_params_cases[OF assms]
    by (cases "flow r") (simp_all add: urlencode_Cons quote_keys)
  show ?thesis
    unfolding build_vless_link_def Let_def q by simp
qed


text \<open>
  Claim C6. The link is a function of the server, the name, the fingerprint, the record
  and the public key alone (in the model as in the source, which reads nothing else).
  For a record that extraction returned, the query has the parameters type, security,
  sni, fp, pbk and sid in this order, then the parameter flow exactly when the record
  has a flow; then the fragment follows at once.
\<close>

theorem link_shape:
  assumes "select_inbound cfg inbound_index = Inr r"
  shows "build_vless_link server name fp r public_key
       = ''vless://'' @ uuid r @ ''@'' @ server @ '':'' @ str_int (port r)
         @ ''?type='' @ quote (network r) []
         @ ''&security=reality''
         @ ''&sni='' @ quote (sni r) []
         @ ''&fp='' @ quote fp []
         @ ''&pbk='' @ quote public_key []
         @ ''&sid='' @ quote (short_id r) []
         @ (case flow r of None \<Rightarrow> [] | Some f \<Rightarrow> ''&flow='' @ quote f [])
         @ ''#'' @ quote name []"
proof -
  from extracted_flow_shape[OF assms]
  have "flow r = None \<or> (\<exists>s. flow r = Some s \<and> s \<noteq> [])" by blast
  then show ?thesis by (rule link_shape_aux)
qed

theorem link_shape_witness:
  "build_vless_link ''1.2.3.4'' ''a b'' ''chrome'' padded_record
     ''PUBKEYBBBBBBBBBBBBBBBBBBBBBBBBBB''
   = ''vless://11111111-1111-1111-1111-111111111111@1.2.3.4:443?type=tcp&security=reality&sni=example.com&fp=chrome&pbk=PUBKEYBBBBBBBBBBBBBBBBBBBBBBBBBB&sid=ab12&flow=xtls-rprx-vision#a%20b''"
proof -
  have h: "select_inbound padded_cfg None = Inr padded_record" by code_simp
  note t = link_shape[OF h, of "''1.2.3.4''" "''a b''" "''chrome''"
      "''PUBKEYBBBBBBBBBBBBBBBBBBBBBBBBBB''"]
  have q: "quote ''tcp'' [] = ''tcp''" "quote ''example.com'' [] = ''example.com''"
    "quote ''chrome'' [] = ''chrome''"
    "quote ''PUBKEYBBBBBBBBBBBBBBBBBBBBBBBBBB'' [] = ''PUBKEYBBBBBBBBBBBBBBBBBBBBBBBBBB''"
    "quote ''ab12'' [] = ''ab12''" "quote ''xtls-rprx-vision'' [] = ''xtls-rprx-vision''"
    "quote ''a b'' [] = ''a%20b''" "str_int 443 = ''443''"
    by code_simp+
  have f: "uuid padded_record = ''11111111-1111-1111-1111-111111111111''"
    "port padded_record = 443" "network padded_record = ''tcp''"
    "sni padded_record = ''example.com''" "short_id padded_record = ''ab12''"
    "flow padded_record = Some ''xtls-rprx-vision''"
    by (simp_all add: padded_record_def)
  show ?thesis
    unfolding t f by (simp add: q)
qed

section \<open>Validation of the identifier\<close>

lemma hex_char_facts:
  assumes "hex_char c"
  shows "c \<noteq> CHR ''u''" "c \<noteq> CHR ''{''" "c \<noteq> CHR ''}''" "c \<noteq> CHR ''-''"
    "c \<noteq> CHR ''+''" "c \<noteq> CHR ''x''" "c \<noteq> CHR ''X''" "c \<noteq> CHR ''_''"
    "\<not> int_isspace c" "\<exists>d<16. hex_digit_value c = Some d"
  using assms by (auto simp: hex_char_def int_isspace_def hex_digit_value_def Let_def)

lemma remove_all_absent: "c \<notin> set s \<Longrightarrow> remove_all (c # p) s = s"
  by (induction s) auto

lemma remove_all_single: "remove_all [c] s = filter (\<lambda>a. a \<noteq> c) s"
  by (induction s) auto

lemma strip_chars_ends:
  "s \<noteq> [] \<Longrightarrow> hd s \<notin> set chars \<Longrightarrow> last s \<notin> set chars \<Longrightarrow> strip_chars chars s = s"
  by (simp add: strip_chars_def dropWhile_fix hd_rev)

lemma canonical_split:
  assumes "canonical_uuid u"
  shows "u = take 8 u @ ''-'' @ take 4 (drop 9 u) @ ''-'' @ take 4 (drop 14 u) @ ''-''
             @ take 4 (drop 19 u) @ ''-'' @ drop 24 u"
proof -
  from assms have len: "length u = 36" and h: "u ! 8 = CHR ''-''" "u ! 13 = CHR ''-''"
    "u ! 18 = CHR ''-''" "u ! 23 = CHR ''-''"
    by (simp_all add: canonical_uuid_def)
  have d8: "drop 8 u = CHR ''-'' # drop 9 u"
    using Cons_nth_drop_Suc[of 8 u] len h by simp
  have d13: "drop 13 u = CHR ''-'' # drop 14 u"
    using Cons_nth_drop_Suc[of 13 u] len h by simp
  have d18: "drop 18 u = CHR ''-'' # drop 19 u"
    using Cons_nth_drop_Suc[of 18 u] len h by simp
  have d23: "drop 23 u = CHR ''-'' # drop 24 u"
    using Cons_nth_drop_Suc[of 23 u] len h by simp
  have s9: "drop 9 u = take 4 (drop 9 u) @ drop 13 u"
    using append_take_drop_id[of 4 "drop 9 u"] by simp
  have s14: "drop 14 u = take 4 (drop 14 u) @ drop 18 u"
    using append_take_drop_id[of 4 "drop 14 u"] by simp
  have s19: "drop 19 u = take 4 (drop 19 u) @ drop 23 u"
    using append_take_drop_id[of 4 "drop 19 u"] by simp
  have "u = take 8 u @ drop 8 u" by simp
  also have "drop 8 u = ''-'' @ take 4 (drop 9 u) @ ''-'' @ take 4 (drop 14 u) @ ''-''
             @ take 4 (drop 19 u) @ ''-'' @ drop 24 u"
    using d8 d13 d18 d23 s9 s14 s19 by simp
  finally show ?thesis .
qed


lemma scan_digits_hex:
  "list_all hex_char h \<Longrightarrow> h \<noteq> [] \<or> \<not> prev \<Longrightarrow>
   \<exists>v. scan_digits h prev acc = Some (v, []) \<and> acc * 16 ^ length h \<le> v
         \<and> v < (acc + 1) * 16 ^ length h"
proof (induction h arbitrary: prev acc)
  case Nil
  then show ?case by simp
next
  case (Cons c h)
  from Cons.prems(1) have c: "hex_char c" and h: "list_all hex_char h" by simp_all
  from hex_char_facts(10)[OF c] obtain d where d: "d < 16" "hex_digit_value c = Some d"
    by blast
  from Cons.IH[OF h, of False "acc * 16 + int d"] obtain v where
    v: "scan_digits h False (acc * 16 + int d) = Some (v, [])"
       "(acc * 16 + int d) * 16 ^ length h \<le> v"
       "v < (acc * 16 + int d + 1) * 16 ^ length h"
    by auto
  have P: "(0::int) < 16 ^ length h" by simp
  have lo: "acc * 16 * 16 ^ length h \<le> (acc * 16 + int d) * 16 ^ length h"
    by (rule mult_right_mono) (use P in auto)
  have hi: "(acc * 16 + int d + 1) * 16 ^ length h \<le> (acc * 16 + 16) * 16 ^ length h"
    by (rule mult_right_mono) (use P d in auto)
  have "scan_digits (c # h) prev acc = Some (v, [])"
    using v(1) d(2) hex_char_facts(8)[OF c] by simp
  moreover have "acc * 16 ^ length (c # h) = acc * 16 * 16 ^ length h"
    by simp
  moreover have "(acc + 1) * 16 ^ length (c # h) = (acc * 16 + 16) * 16 ^ length h"
    by (simp add: algebra_simps)
  moreover note lo hi v(2) v(3)
  ultimately have "scan_digits (c # h) prev acc = Some (v, [])
      \<and> acc * 16 ^ length (c # h) \<le> v \<and> v < (acc + 1) * 16 ^ length (c # h)"
    by linarith
  then show ?case by blast
qed

lemma py_int16_hex:
  assumes "list_all hex_char h" and "2 \<le> length h"
  shows "\<exists>v. py_int16 h = Inr v \<and> 0 \<le> v \<and> v < 16 ^ length h"
proof -
  from assms(2) obtain c0 c1 cs where h: "h = c0 # c1 # cs"
    by (cases h; cases "tl h") auto
  with assms(1) have c0: "hex_char c0" and c1: "hex_char c1" by simp_all
  have 1: "dropWhile int_isspace h = h"
    using hex_char_facts(9)[OF c0] h by simp
  have 2: "skip_sign h = (False, h)"
    using hex_char_facts(4,5)[OF c0] h by simp
  have 3: "skip_prefix16 h = h"
    using hex_char_facts(6,7)[OF c1] h by simp
  have 4: "hd h \<noteq> CHR ''_''"
    using hex_char_facts(8)[OF c0] h by simp
  from scan_digits_hex[OF assms(1), of False 0] obtain v where
    v: "scan_digits h False 0 = Some (v, [])" "0 \<le> v" "v < 16 ^ length h"
    by auto
  have ne: "h \<noteq> []" using h by simp
  have "py_int16 h = Inr v"
    using v(1) 4 ne by (simp add: py_int16_def 1 2 3)
  with v show ?thesis by blast
qed

lemma UUID_canonical:
  assumes "canonical_uuid u"
  shows "\<exists>v. UUID u = Inr v"
proof -
  define g1 where "g1 = take 8 u"
  define g2 where "g2 = take 4 (drop 9 u)"
  define g3 where "g3 = take 4 (drop 14 u)"
  define g4 where "g4 = take 4 (drop 19 u)"
  define g5 where "g5 = drop 24 u"
  from assms have len: "length u = 36"
    and g: "list_all hex_char g1" "list_all hex_char g2" "list_all hex_char g3"
           "list_all hex_char g4" "list_all hex_char g5"
    by (simp_all add: canonical_uuid_def g1_def g2_def g3_def g4_def g5_def)
  have lens: "length g1 = 8" "length g2 = 4" "length g3 = 4" "length g4 = 4" "length g5 = 12"
    using len by (simp_all add: g1_def g2_def g3_def g4_def g5_def)
  have u: "u = g1 @ ''-'' @ g2 @ ''-'' @ g3 @ ''-'' @ g4 @ ''-'' @ g5"
    using canonical_split[OF assms] by (simp add: g1_def g2_def g3_def g4_def g5_def)
  have chars: "\<forall>c\<in>set u. hex_char c \<or> c = CHR ''-''"
    using g by (subst u) (auto simp: list_all_iff)
  then have nou: "CHR ''u'' \<notin> set u"
    using hex_char_facts(1) by auto
  have r1: "remove_all ''urn:'' u = u" and r2: "remove_all ''uuid:'' u = u"
    using nou by (simp_all add: remove_all_absent)
  have ne: "u \<noteq> []" using len by auto
  have "hd u = hd g1" using u lens by (cases g1) auto
  moreover have "hex_char (hd g1)" using g(1) lens by (cases g1) auto
  ultimately have hdu: "hd u \<notin> set ''{}''" using hex_char_facts(2,3) by auto
  have "last u = last g5" using u lens by (cases g5) auto
  moreover have "hex_char (last g5)" using g(5) lens
    by (metis last_in_set length_0_conv list_all_iff zero_neq_numeral)
  ultimately have lau: "last u \<notin> set ''{}''" using hex_char_facts(2,3) by auto
  have r3: "strip_chars ''{}'' u = u"
    by (rule strip_chars_ends[OF ne hdu lau])
  have keep: "\<And>xs. list_all hex_char xs \<Longrightarrow> filter (\<lambda>a. a \<noteq> CHR ''-'') xs = xs"
    using hex_char_facts(4) by (simp add: list_all_iff filter_id_conv)
  have r4: "remove_all ''-'' u = g1 @ g2 @ g3 @ g4 @ g5"
    unfolding remove_all_single by (subst u) (simp add: keep g)
  have hexall: "list_all hex_char (g1 @ g2 @ g3 @ g4 @ g5)" using g by simp
  have hexlen: "length (g1 @ g2 @ g3 @ g4 @ g5) = 32" using lens by simp
  from py_int16_hex[OF hexall] hexlen obtain v where
    v: "py_int16 (g1 @ g2 @ g3 @ g4 @ g5) = Inr v" "0 \<le> v" "v < 16 ^ 32"
    by auto
  have "(16::int) ^ 32 = 340282366920938463463374607431768211456" by simp
  with v have "UUID u = Inr v"
    unfolding UUID_def Let_def r1 r2 r3 r4 by (simp add: lens)
  then show ?thesis by blast
qed


text \<open>
  Claim C4, as amended. The validation accepts every string of the canonical hyphenated
  36-character form; and what it accepts has exactly 32 characters left, which
  \<^verbatim>\<open>int(hex, 16)\<close> reads as a number, once \<^verbatim>\<open>urn:\<close> and \<^verbatim>\<open>uuid:\<close> are removed, braces are
  stripped from both ends and all hyphens are removed. It does not reject every other
  format.
\<close>

theorem uuid_validation:
  "(canonical_uuid u \<longrightarrow> validate_uuid u = Inr ())
   \<and> (validate_uuid u = Inr () \<longrightarrow>
        length (remove_all ''-'' (strip_chars ''{}''
                  (remove_all ''uuid:'' (remove_all ''urn:'' u)))) = 32
        \<and> (\<exists>v. py_int16 (remove_all ''-'' (strip_chars ''{}''
                  (remove_all ''uuid:'' (remove_all ''urn:'' u)))) = Inr v))"
proof (intro conjI impI)
  assume "canonical_uuid u"
  from UUID_canonical[OF this] show "validate_uuid u = Inr ()"
    by (auto simp: validate_uuid_def)
next
  assume a: "validate_uuid u = Inr ()"
  then obtain v where "UUID u = Inr v"
    by (cases "UUID u") (simp_all add: validate_uuid_def)
  then show "length (remove_all ''-'' (strip_chars ''{}''
                  (remove_all ''uuid:'' (remove_all ''urn:'' u)))) = 32"
    and "\<exists>v. py_int16 (remove_all ''-'' (strip_chars ''{}''
                  (remove_all ''uuid:'' (remove_all ''urn:'' u)))) = Inr v"
    by (auto simp: UUID_def Let_def split: if_splits sum.splits)
qed

theorem uuid_validation_witness:
  "canonical_uuid ''123e4567-e89b-12D3-a456-426614174000''
   \<and> validate_uuid ''123e4567-e89b-12D3-a456-426614174000'' = Inr ()
   \<and> validate_uuid ''123e4567-e89b-12D3-a456-42661417400'' = Inl (InvalidUUID ''123e4567-e89b-12D3-a456-42661417400'')"
proof -
  have c: "canonical_uuid ''123e4567-e89b-12D3-a456-426614174000''" by code_simp
  have r: "validate_uuid ''123e4567-e89b-12D3-a456-42661417400''
             = Inl (InvalidUUID ''123e4567-e89b-12D3-a456-42661417400'')" by code_simp
  from uuid_validation[of "''123e4567-e89b-12D3-a456-426614174000''"] c r
  show ?thesis by blast
qed

text \<open>
  The claim as stated fails: 32 hexadecimal digits without hyphens, and the canonical
  form inside braces or after \<^verbatim>\<open>urn:uuid:\<close>, are accepted and are not of the canonical
  36-character form.
\<close>

theorem uuid_noncanonical_counterexample:
  "validate_uuid ''11111111111111111111111111111111'' = Inr ()
   \<and> \<not> canonical_uuid ''11111111111111111111111111111111''
   \<and> validate_uuid ''{11111111-1111-1111-1111-111111111111}'' = Inr ()
   \<and> \<not> canonical_uuid ''{11111111-1111-1111-1111-111111111111}''
   \<and> validate_uuid ''urn:uuid:11111111-1111-1111-1111-111111111111'' = Inr ()
   \<and> \<not> canonical_uuid ''urn:uuid:11111111-1111-1111-1111-111111111111''"
  by code_simp

section \<open>The round trip of percent-encoding\<close>

lemma of_char_lt_256: "(of_char c :: nat) < 256"
proof -
  have "(of_char c :: nat) mod 256 < 256" by simp
  then show ?thesis by (simp only: of_char_mod_256)
qed

lemma byte_nibbles: "(of_char b :: nat) div 16 < 16" "(of_char b :: nat) mod 16 < 16"
proof -
  have "(of_char b :: nat) < 16 * 16" using of_char_lt_256[of b] by simp
  then show "(of_char b :: nat) div 16 < 16" by (rule less_mult_imp_div_less)
  show "(of_char b :: nat) mod 16 < 16" by simp
qed

lemma hex_upper_value: "d < 16 \<Longrightarrow> hex_digit_value (hex_upper d) = Some d"
  by (auto simp: hex_upper_def hex_digit_value_def Let_def)

lemma hex_upper_safe: "d < 16 \<Longrightarrow> always_safe (hex_upper d)"
  by (auto simp: hex_upper_def always_safe_def Let_def)

lemma always_safe_facts:
  assumes "always_safe c"
  shows "c \<noteq> CHR ''%''" "c \<noteq> CHR ''&''" "c \<noteq> CHR ''=''" "c \<noteq> CHR ''#''" "c \<noteq> CHR ''?''"
  using assms by (auto simp: always_safe_def Let_def)

lemma percent_decode_Cons:
  "c \<noteq> CHR ''%'' \<Longrightarrow> percent_decode (c # cs) = c # percent_decode cs"
  by (cases cs; cases "tl cs") auto

lemma percent_decode_escape:
  "a < 16 \<Longrightarrow> b < 16 \<Longrightarrow>
   percent_decode (CHR ''%'' # hex_upper a # hex_upper b # cs) = char_of (16 * a + b) # percent_decode cs"
  by (simp add: hex_upper_value)

lemma char_of_div_mod: "char_of (16 * ((of_char b :: nat) div 16) + (of_char b :: nat) mod 16) = b"
  by simp

lemma percent_decode_quoter: "percent_decode (quoter [] b @ rest) = b # percent_decode rest"
proof (cases "always_safe b")
  case True
  then show ?thesis
    using always_safe_facts(1)[OF True] by (simp add: quoter_def percent_decode_Cons)
next
  case False
  show ?thesis
    using False percent_decode_escape[OF byte_nibbles, of b b] by (simp add: quoter_def)
qed

lemma percent_decode_concat: "percent_decode (concat (map (quoter []) bs)) = bs"
  by (induction bs) (simp_all add: percent_decode_quoter)

lemma percent_decode_safe: "list_all always_safe bs \<Longrightarrow> percent_decode bs = bs"
  by (induction bs) (simp_all add: percent_decode_Cons always_safe_facts(1))

lemma percent_decode_quote_from_bytes: "percent_decode (quote_from_bytes bs []) = bs"
  by (simp add: quote_from_bytes_def percent_decode_concat percent_decode_safe)

lemma utf8_decode_Cons_ascii:
  "(of_char c :: nat) < 128 \<Longrightarrow> utf8_decode (c # bs) = map_option (Cons c) (utf8_decode bs)"
  by (cases bs) simp_all

lemma utf8_decode_encode_char:
  "utf8_decode (utf8_encode_char c @ bs) = map_option (Cons c) (utf8_decode bs)"
proof (cases "(of_char c :: nat) < 128")
  case True
  then show ?thesis by (simp add: utf8_encode_char_def utf8_decode_Cons_ascii)
next
  case False
  define n where "n = (of_char c :: nat)"
  have n: "128 \<le> n" "n < 256" using False of_char_lt_256[of c] by (simp_all add: n_def)
  then have d: "n div 64 = 2 \<or> n div 64 = 3" by auto
  have m: "n mod 64 < 64" by simp
  have c: "char_of n = c" by (simp add: n_def)
  have "(n div 64) * 64 + n mod 64 = n" by simp
  with d m n c show ?thesis
    using False unfolding utf8_encode_char_def Let_def n_def[symmetric]
    by (auto simp: Let_def)
qed

lemma utf8_decode_encode: "utf8_decode (utf8_encode s) = Some s"
  by (induction s) (simp_all add: utf8_encode_def utf8_decode_encode_char)

lemma utf8_encode_Nil: "utf8_encode s = [] \<longleftrightarrow> s = []"
  by (cases s) (auto simp: utf8_encode_def utf8_encode_char_def Let_def)

lemma unquote_quote: "unquote (quote s []) = Some s"
  by (simp add: unquote_def quote_def percent_decode_quote_from_bytes utf8_decode_encode)

lemma quoter_chars: "c \<in> set (quoter [] b) \<Longrightarrow> always_safe c \<or> c = CHR ''%''"
  by (auto simp: quoter_def hex_upper_safe byte_nibbles split: if_splits)

lemma quote_chars: "c \<in> set (quote s []) \<Longrightarrow> always_safe c \<or> c = CHR ''%''"
  by (auto simp: quote_def quote_from_bytes_def list_all_iff dest: quoter_chars split: if_splits)

lemma quote_no_delims:
  "CHR ''&'' \<notin> set (quote s [])" "CHR ''='' \<notin> set (quote s [])"
  "CHR ''#'' \<notin> set (quote s [])" "CHR ''?'' \<notin> set (quote s [])"
  using quote_chars[of _ s] always_safe_facts by fastforce+


lemma takeWhile_neq_append:
  "sep \<notin> set p \<Longrightarrow> takeWhile (\<lambda>c. c \<noteq> sep) (p @ sep # rest) = p"
  by (induction p) auto

lemma dropWhile_neq_append:
  "sep \<notin> set p \<Longrightarrow> dropWhile (\<lambda>c. c \<noteq> sep) (p @ sep # rest) = sep # rest"
  by (induction p) auto

lemma join_all:
  "\<forall>c\<in>set sep. P c \<Longrightarrow> \<forall>x\<in>set xs. \<forall>c\<in>set x. P c \<Longrightarrow> \<forall>c\<in>set (join sep xs). P c"
  by (induction sep xs rule: join.induct) auto

lemma join_nonempty: "x \<noteq> [] \<Longrightarrow> join sep (x # xs) \<noteq> []"
  by (cases xs) auto

lemma split_on_none: "sep \<notin> set p \<Longrightarrow> split_on sep p = [p]"
  by (induction p) auto

lemma split_on_append:
  "sep \<notin> set p \<Longrightarrow> split_on sep (p @ sep # rest) = p # split_on sep rest"
  by (induction p) auto

lemma split_on_join:
  "pieces \<noteq> [] \<Longrightarrow> \<forall>p\<in>set pieces. sep \<notin> set p \<Longrightarrow>
   split_on sep (join [sep] pieces) = pieces"
proof (induction "[sep]" pieces rule: join.induct)
  case 1
  then show ?case by simp
next
  case (2 x)
  then show ?case by (simp add: split_on_none)
next
  case (3 x y ys)
  then show ?case by (simp add: split_on_append)
qed

lemma parse_pair_quoted: "parse_pair (quote k [] @ ''='' @ quote v []) = Some (k, v)"
proof -
  have t: "takeWhile (\<lambda>c. c \<noteq> CHR ''='') (quote k [] @ ''='' @ quote v []) = quote k []"
    using quote_no_delims(2)[of k] by (simp add: takeWhile_neq_append)
  have d: "dropWhile (\<lambda>c. c \<noteq> CHR ''='') (quote k [] @ ''='' @ quote v [])
             = ''='' @ quote v []"
    using quote_no_delims(2)[of k] by (simp add: dropWhile_neq_append)
  show ?thesis
    unfolding parse_pair_def t d by (simp add: unquote_quote)
qed

lemma parse_pair_quoted_Cons: "parse_pair (quote k [] @ CHR ''='' # quote v []) = Some (k, v)"
  using parse_pair_quoted[of k v] by simp

lemma sequence_options_Some: "sequence_options (map Some xs) = Some xs"
  by (induction xs) simp_all

lemma parse_qsl_urlencode: "parse_qsl (urlencode params) = Some params"
proof (cases params)
  case Nil
  then show ?thesis by (simp add: parse_qsl_def urlencode_def)
next
  case (Cons kv kvs)
  define pieces where "pieces = map (\<lambda>(k, v). quote k [] @ ''='' @ quote v []) params"
  have ne: "pieces \<noteq> []" using Cons by (simp add: pieces_def)
  have noamp: "\<forall>p\<in>set pieces. CHR ''&'' \<notin> set p"
    using quote_no_delims(1) by (auto simp: pieces_def)
  have first: "CHR ''='' \<in> set (hd pieces)"
    using Cons by (cases kv) (simp add: pieces_def)
  have nonempty: "join ''&'' pieces \<noteq> []"
  proof (cases pieces)
    case Nil
    with ne show ?thesis by simp
  next
    case (Cons p ps)
    with first have "p \<noteq> []" by auto
    then show ?thesis unfolding Cons by (rule join_nonempty)
  qed
  have sp: "split_on CHR ''&'' (join ''&'' pieces) = pieces"
    by (rule split_on_join[OF ne noamp])
  have "map parse_pair pieces = map Some params"
    by (simp add: pieces_def parse_pair_quoted_Cons split: prod.splits)
  moreover have ue: "urlencode params = join ''&'' pieces"
    by (simp add: urlencode_def pieces_def)
  ultimately show ?thesis
    unfolding parse_qsl_def ue using nonempty sp
    by (simp add: sequence_options_Some)
qed

lemma urlencode_chars: "\<forall>c\<in>set (urlencode params). c \<noteq> CHR ''#'' \<and> c \<noteq> CHR ''?''"
  unfolding urlencode_def
proof (rule join_all)
  show "\<forall>c\<in>set ''&''. c \<noteq> CHR ''#'' \<and> c \<noteq> CHR ''?''" by simp
  show "\<forall>x\<in>set (map (\<lambda>(k, v). quote k [] @ ''='' @ quote v []) params).
          \<forall>c\<in>set x. c \<noteq> CHR ''#'' \<and> c \<noteq> CHR ''?''"
    using quote_no_delims(3,4) by (auto split: prod.splits)
qed

lemma link_split_end:
  assumes "CHR ''#'' \<notin> set f" and "CHR ''#'' \<notin> set q" and "CHR ''?'' \<notin> set q"
  shows "link_fragment (head @ ''?'' @ q @ ''#'' @ f) = f"
    and "link_query (head @ ''?'' @ q @ ''#'' @ f) = q"
proof -
  have r: "rev (head @ ''?'' @ q @ ''#'' @ f) = rev f @ CHR ''#'' # (rev q @ CHR ''?'' # rev head)"
    by simp
  have tf: "takeWhile (\<lambda>c. c \<noteq> CHR ''#'') (rev f @ CHR ''#'' # (rev q @ CHR ''?'' # rev head)) = rev f"
    using assms(1) by (simp add: takeWhile_neq_append)
  have df: "dropWhile (\<lambda>c. c \<noteq> CHR ''#'') (rev f @ CHR ''#'' # (rev q @ CHR ''?'' # rev head))
              = CHR ''#'' # (rev q @ CHR ''?'' # rev head)"
    using assms(1) by (simp add: dropWhile_neq_append)
  have tq: "takeWhile (\<lambda>c. c \<noteq> CHR ''?'') (rev q @ CHR ''?'' # rev head) = rev q"
    using assms(3) by (simp add: takeWhile_neq_append)
  show "link_fragment (head @ ''?'' @ q @ ''#'' @ f) = f"
    unfolding link_fragment_def r tf by simp
  show "link_query (head @ ''?'' @ q @ ''#'' @ f) = q"
    unfolding link_query_def r df by (simp add: tq)
qed

lemma link_split_front:
  assumes "CHR ''#'' \<notin> set head" and "CHR ''?'' \<notin> set head" and "CHR ''#'' \<notin> set q"
  shows "urlsplit_fragment (head @ ''?'' @ q @ ''#'' @ f) = f"
    and "urlsplit_query (head @ ''?'' @ q @ ''#'' @ f) = q"
proof -
  have a: "head @ ''?'' @ q @ ''#'' @ f = (head @ ''?'' @ q) @ CHR ''#'' # f" by simp
  have n: "CHR ''#'' \<notin> set (head @ ''?'' @ q)" using assms by simp
  have d: "dropWhile (\<lambda>c. c \<noteq> CHR ''#'') ((head @ ''?'' @ q) @ CHR ''#'' # f) = CHR ''#'' # f"
    using n by (rule dropWhile_neq_append)
  have t: "takeWhile (\<lambda>c. c \<noteq> CHR ''#'') ((head @ ''?'' @ q) @ CHR ''#'' # f) = head @ ''?'' @ q"
    using n by (rule takeWhile_neq_append)
  have dq: "dropWhile (\<lambda>c. c \<noteq> CHR ''?'') (head @ ''?'' @ q) = ''?'' @ q"
    using assms(2) by (simp add: dropWhile_neq_append)
  show "urlsplit_fragment (head @ ''?'' @ q @ ''#'' @ f) = f"
    unfolding urlsplit_fragment_def a d by simp
  show "urlsplit_query (head @ ''?'' @ q @ ''#'' @ f) = q"
    unfolding urlsplit_query_def a t dq by simp
qed


lemma remove_all_keeps: "c \<in> set s \<Longrightarrow> c \<notin> set p \<Longrightarrow> c \<in> set (remove_all p s)"
proof (induction p s rule: remove_all.induct)
  case (1 old)
  then show ?case by simp
next
  case (2 old x xs)
  show ?case
  proof (cases "old \<noteq> [] \<and> take (length old) (x # xs) = old")
    case True
    have "set (x # xs) = set (take (length old) (x # xs)) \<union> set (drop (length old) (x # xs))"
      by (metis append_take_drop_id set_append)
    with True "2.prems" have "c \<in> set (drop (length old) (x # xs))" by auto
    from "2.IH"(1)[OF True this "2.prems"(2)] True show ?thesis by simp
  next
    case False
    with "2.IH"(2)[OF False] "2.prems" show ?thesis by auto
  qed
qed

lemma dropWhile_keeps: "x \<in> set xs \<Longrightarrow> \<not> P x \<Longrightarrow> x \<in> set (dropWhile P xs)"
  by (induction xs) auto

lemma strip_chars_keeps: "c \<in> set s \<Longrightarrow> c \<notin> set chars \<Longrightarrow> c \<in> set (strip_chars chars s)"
  by (simp add: strip_chars_def dropWhile_keeps)

lemma dropWhile_all: "\<forall>c\<in>set (dropWhile Q s). P c \<Longrightarrow> \<forall>c. Q c \<longrightarrow> P c \<Longrightarrow> \<forall>c\<in>set s. P c"
  by (induction s) (auto split: if_splits)

lemma skip_sign_chars: "\<forall>c\<in>set (snd (skip_sign s)). int_char c \<Longrightarrow> \<forall>c\<in>set s. int_char c"
  by (cases s) (auto simp: int_char_def split: if_splits)

lemma skip_prefix16_set:
  "set s \<subseteq> set (skip_prefix16 s) \<union> {CHR ''0'', CHR ''x'', CHR ''X'', CHR ''_''}"
proof (cases s rule: skip_prefix16.cases)
  case (1 c0 c1 cs)
  then show ?thesis by (cases cs) auto
qed auto

lemma skip_prefix16_chars: "\<forall>c\<in>set (skip_prefix16 s). int_char c \<Longrightarrow> \<forall>c\<in>set s. int_char c"
  using skip_prefix16_set[of s] by (auto simp: int_char_def)

lemma scan_digits_chars:
  "scan_digits s prev acc = Some (v, rest) \<Longrightarrow> \<forall>c\<in>set rest. int_char c \<Longrightarrow> \<forall>c\<in>set s. int_char c"
proof (induction s arbitrary: prev acc)
  case Nil
  then show ?case by simp
next
  case (Cons a s)
  show ?case
  proof (cases "a = CHR ''_''")
    case True
    with Cons.prems(1) have "scan_digits s True acc = Some (v, rest)"
      by (simp split: if_splits)
    from Cons.IH[OF this Cons.prems(2)] True show ?thesis by (simp add: int_char_def)
  next
    case False
    show ?thesis
    proof (cases "hex_digit_value a")
      case None
      with False Cons.prems(1) have "rest = a # s" by (simp split: if_splits)
      with Cons.prems(2) show ?thesis by simp
    next
      case (Some d)
      with False Cons.prems(1) have "scan_digits s False (acc * 16 + int d) = Some (v, rest)"
        by simp
      from Cons.IH[OF this Cons.prems(2)] Some show ?thesis by (simp add: int_char_def)
    qed
  qed
qed

lemma py_int16_chars:
  assumes "py_int16 s = Inr v"
  shows "\<forall>c\<in>set s. int_char c"
proof -
  define s1 where "s1 = dropWhile int_isspace s"
  define s3 where "s3 = skip_prefix16 (snd (skip_sign s1))"
  from assms obtain n rest where sc: "scan_digits s3 False 0 = Some (n, rest)"
    and sp: "dropWhile int_isspace rest = []"
    unfolding py_int16_def s1_def[symmetric]
    by (auto simp: Let_def s3_def split: prod.splits if_splits option.splits)
  have "\<forall>c\<in>set rest. int_char c"
    using sp by (auto simp: dropWhile_eq_Nil_conv int_char_def)
  from scan_digits_chars[OF sc this] have "\<forall>c\<in>set s3. int_char c" .
  then have "\<forall>c\<in>set (snd (skip_sign s1)). int_char c"
    unfolding s3_def by (rule skip_prefix16_chars)
  then have "\<forall>c\<in>set s1. int_char c" by (rule skip_sign_chars)
  then show ?thesis
    unfolding s1_def by (rule dropWhile_all) (simp add: int_char_def)
qed

lemma validate_uuid_chars:
  assumes "validate_uuid u = Inr ()"
  shows "CHR ''#'' \<notin> set u" and "CHR ''?'' \<notin> set u"
proof -
  define hex where "hex = remove_all ''-'' (strip_chars ''{}''
                  (remove_all ''uuid:'' (remove_all ''urn:'' u)))"
  from assms obtain v where "UUID u = Inr v"
    by (cases "UUID u") (simp_all add: validate_uuid_def)
  then obtain w where "py_int16 hex = Inr w"
    by (auto simp: UUID_def Let_def hex_def split: if_splits sum.splits)
  from py_int16_chars[OF this] have all: "\<forall>c\<in>set hex. int_char c" .
  have keep: "\<And>c. c \<in> set u \<Longrightarrow> c \<notin> set ''urn:uid-{}'' \<Longrightarrow> c \<in> set hex"
    unfolding hex_def
    by (intro remove_all_keeps strip_chars_keeps) auto
  have no: "\<not> int_char CHR ''#''" "\<not> int_char CHR ''?''"
    by (simp_all add: int_char_def int_isspace_def hex_digit_value_def)
  show "CHR ''#'' \<notin> set u"
  proof
    assume "CHR ''#'' \<in> set u"
    from keep[OF this] all no(1) show False by auto
  qed
  show "CHR ''?'' \<notin> set u"
  proof
    assume "CHR ''?'' \<in> set u"
    from keep[OF this] all no(2) show False by auto
  qed
qed

lemma str_nat_chars: "\<forall>c\<in>set (str_nat n). c \<noteq> CHR ''#'' \<and> c \<noteq> CHR ''?''"
proof (induction n rule: str_nat.induct)
  case (1 n)
  have d: "\<And>k. k < 10 \<Longrightarrow> digit_char k \<noteq> CHR ''#'' \<and> digit_char k \<noteq> CHR ''?''"
  proof -
    fix k :: nat assume k: "k < 10"
    then have e: "(of_char (digit_char k) :: nat) = 48 + k" by (simp add: digit_char_def)
    show "digit_char k \<noteq> CHR ''#'' \<and> digit_char k \<noteq> CHR ''?''" using e k by auto
  qed
  show ?case
  proof (cases "n < 10")
    case True
    then show ?thesis using d[OF True] by (subst str_nat.simps) simp
  next
    case False
    have "n mod 10 < 10" by simp
    from d[OF this] "1.IH"[OF False] False show ?thesis
      by (subst str_nat.simps) simp
  qed
qed

lemma str_int_chars: "\<forall>c\<in>set (str_int i). c \<noteq> CHR ''#'' \<and> c \<noteq> CHR ''?''"
  using str_nat_chars by (simp add: str_int_def)


text \<open>
  Claim C8, as amended. For a link built from an extracted record, the query (what
  stands between the last question mark and the last hash) parses into the parameters in
  order, each value percent-decoding to the original value of the record's transport,
  server name, short id and flow, the fingerprint and the public key; and the fragment
  (what follows the last hash) percent-decodes to the name. When the server has no hash
  and no question mark, the query and the fragment of the link in the sense of RFC 3986,
  split from the front, are these same two strings.
\<close>

theorem link_round_trip:
  assumes "select_inbound cfg inbound_index = Inr r"
    and "uri = build_vless_link server name fp r public_key"
  shows "parse_qsl (link_query uri)
           = Some ([(''type'', network r), (''security'', ''reality''), (''sni'', sni r),
                    (''fp'', fp), (''pbk'', public_key), (''sid'', short_id r)]
                   @ (case flow r of None \<Rightarrow> [] | Some f \<Rightarrow> [(''flow'', f)]))
       \<and> unquote (link_fragment uri) = Some name
       \<and> (CHR ''#'' \<notin> set server \<and> CHR ''?'' \<notin> set server
            \<longrightarrow> urlsplit_query uri = link_query uri
                \<and> urlsplit_fragment uri = link_fragment uri)"
proof -
  define head where
    "head = ''vless://'' @ uuid r @ ''@'' @ server @ '':'' @ str_int (port r)"
  define q where "q = urlencode (vless_params fp r public_key)"
  define f where "f = quote name []"
  have uri: "uri = head @ ''?'' @ q @ ''#'' @ f"
    unfolding assms(2) build_vless_link_def Let_def head_def q_def f_def by simp
  have nf: "CHR ''#'' \<notin> set f"
    unfolding f_def by (rule quote_no_delims)
  have nq: "CHR ''#'' \<notin> set q" "CHR ''?'' \<notin> set q"
    using urlencode_chars[of "vless_params fp r public_key"] unfolding q_def by auto
  have lf: "link_fragment uri = f" and lq: "link_query uri = q"
    unfolding uri by (rule link_split_end[OF nf nq])+
  from extracted_flow_shape[OF assms(1)]
  have "flow r = None \<or> (\<exists>s. flow r = Some s \<and> s \<noteq> [])" by blast
  from vless_params_cases[OF this]
  have 1: "parse_qsl (link_query uri)
           = Some ([(''type'', network r), (''security'', ''reality''), (''sni'', sni r),
                    (''fp'', fp), (''pbk'', public_key), (''sid'', short_id r)]
                   @ (case flow r of None \<Rightarrow> [] | Some f \<Rightarrow> [(''flow'', f)]))"
    unfolding lq q_def by (simp add: parse_qsl_urlencode)
  have 2: "unquote (link_fragment uri) = Some name"
    unfolding lf f_def by (rule unquote_quote)
  have 3: "urlsplit_query uri = link_query uri \<and> urlsplit_fragment uri = link_fragment uri"
    if s: "CHR ''#'' \<notin> set server \<and> CHR ''?'' \<notin> set server"
  proof -
    from select_inbound_Inr[OF assms(1)] obtain ibs i where
      "parse_one i (ibs ! i) = Inr r" by blast
    then obtain u where "validate_uuid (strip u) = Inr ()" "uuid r = strip u"
      unfolding parse_one_Inr by auto
    with validate_uuid_chars[of "strip u"]
    have u: "CHR ''#'' \<notin> set (uuid r)" "CHR ''?'' \<notin> set (uuid r)" by simp_all
    have h: "CHR ''#'' \<notin> set head" "CHR ''?'' \<notin> set head"
      using u s str_int_chars[of "port r"] unfolding head_def by auto
    show ?thesis
      unfolding lf lq unfolding uri
      using link_split_front[OF h nq(1), of f] by simp
  qed
  from 1 2 3 show ?thesis by blast
qed


theorem link_round_trip_witness:
  "parse_qsl (urlsplit_query (build_vless_link ''1.2.3.4'' ''a b#1'' ''chrome'' padded_record ''P_K''))
     = Some [(''type'', ''tcp''), (''security'', ''reality''), (''sni'', ''example.com''),
             (''fp'', ''chrome''), (''pbk'', ''P_K''), (''sid'', ''ab12''),
             (''flow'', ''xtls-rprx-vision'')]
   \<and> unquote (urlsplit_fragment (build_vless_link ''1.2.3.4'' ''a b#1'' ''chrome'' padded_record ''P_K''))
     = Some ''a b#1''"
proof -
  have h: "select_inbound padded_cfg None = Inr padded_record" by code_simp
  have s: "CHR ''#'' \<notin> set ''1.2.3.4'' \<and> CHR ''?'' \<notin> set ''1.2.3.4''" by simp
  from link_round_trip[OF h refl, of "''1.2.3.4''" "''a b#1''" "''chrome''" "''P_K''"] s
  show ?thesis by (simp add: padded_record_def)
qed

text \<open>
  The claim as stated fails: the server stands in the link as it is, so with the server
  ''h#x'' the fragment of the link in the sense of RFC 3986 begins after the hash of the
  server, the link has no query at all, and decoding recovers neither the name nor any
  parameter.
\<close>

theorem link_round_trip_counterexample:
  "unquote (urlsplit_fragment (build_vless_link ''h#x'' ''n'' ''chrome'' example_record ''P_K''))
     = Some ''x:443?type=tcp&security=reality&sni=example.com&fp=chrome&pbk=P_K&sid=ab12#n''
   \<and> parse_qsl (urlsplit_query (build_vless_link ''h#x'' ''n'' ''chrome'' example_record ''P_K''))
     = Some []
   \<and> select_inbound example_cfg None = Inr example_record"
  by code_simp

end
